theory Spec2Isabelle
  imports Complex_Main "HOL-Library.Option_ord" "HOL-Library.Multiset"
begin

section \<open>Strings of the runtime\<close>

text \<open>
  A string is a list of code points of the Latin-1 range, U+0000 to U+00FF, which is the
  type \<^typ>\<open>char\<close>: a JavaScript string of such code points has one code unit per
  element, and SQLite counts one character per element. Text with code points above U+00FF
  is outside this type.

  \<open>String.prototype.toLowerCase\<close> folds every cased letter: in this range the letters A
  to Z and the capitals U+00C0 to U+00DE except the sign U+00D7, each to the code point 32
  above it. \<open>String.prototype.trim\<close> removes white space and line terminators at both
  ends: in this range U+0009 to U+000D, U+0020 and U+00A0.

  SQLite folds the letters A to Z only, in its \<open>NOCASE\<close> collation and in \<open>LIKE\<close>.
\<close>

definition lower_char :: "char \<Rightarrow> char" where
  "lower_char c =
     (case map_of
        (zip (''ABCDEFGHIJKLMNOPQRSTUVWXYZ'' @
              [CHR 0xC0, CHR 0xC1, CHR 0xC2, CHR 0xC3, CHR 0xC4, CHR 0xC5, CHR 0xC6, CHR 0xC7,
               CHR 0xC8, CHR 0xC9, CHR 0xCA, CHR 0xCB, CHR 0xCC, CHR 0xCD, CHR 0xCE, CHR 0xCF,
               CHR 0xD0, CHR 0xD1, CHR 0xD2, CHR 0xD3, CHR 0xD4, CHR 0xD5, CHR 0xD6,
               CHR 0xD8, CHR 0xD9, CHR 0xDA, CHR 0xDB, CHR 0xDC, CHR 0xDD, CHR 0xDE])
             (''abcdefghijklmnopqrstuvwxyz'' @
              [CHR 0xE0, CHR 0xE1, CHR 0xE2, CHR 0xE3, CHR 0xE4, CHR 0xE5, CHR 0xE6, CHR 0xE7,
               CHR 0xE8, CHR 0xE9, CHR 0xEA, CHR 0xEB, CHR 0xEC, CHR 0xED, CHR 0xEE, CHR 0xEF,
               CHR 0xF0, CHR 0xF1, CHR 0xF2, CHR 0xF3, CHR 0xF4, CHR 0xF5, CHR 0xF6,
               CHR 0xF8, CHR 0xF9, CHR 0xFA, CHR 0xFB, CHR 0xFC, CHR 0xFD, CHR 0xFE])) c of
        None \<Rightarrow> c
      | Some l \<Rightarrow> l)"

definition toLowerCase :: "string \<Rightarrow> string" where
  "toLowerCase s = map lower_char s"

definition is_space :: "char \<Rightarrow> bool" where
  "is_space c = ((of_char c :: nat) \<in> {9, 10, 11, 12, 13, 32, 160})"

definition trim :: "string \<Rightarrow> string" where
  "trim s = rev (dropWhile is_space (rev (dropWhile is_space s)))"

definition ascii_lower_char :: "char \<Rightarrow> char" where
  "ascii_lower_char c =
     (case map_of (zip ''ABCDEFGHIJKLMNOPQRSTUVWXYZ'' ''abcdefghijklmnopqrstuvwxyz'') c of
        None \<Rightarrow> c
      | Some l \<Rightarrow> l)"

definition substring :: "string \<Rightarrow> nat \<Rightarrow> nat \<Rightarrow> string" where
  "substring s a b = take (max a b - min a b) (drop (min a b) s)"

section \<open>Rows of the table \<open>medical_terms\<close>\<close>

text \<open>
  The columns \<open>variants\<close> and \<open>context_words\<close> are declared \<open>TEXT\<close> and documented as a
  JSON array of strings. The engine reads \<open>variants\<close> with
  \<^verbatim>\<open>typeof term.variants === 'string' ? JSON.parse(term.variants || '[]') : (term.variants || [])\<close>
  followed by \<open>Array.isArray\<close>, and then tests each element with \<open>if (variant)\<close> and
  calls \<open>variant.toLowerCase()\<close>. An element of an array is therefore a string
  (\<open>JsString\<close>, falsy when empty), another falsy value (\<open>JsFalsy\<close>: \<open>null\<close>, \<open>false\<close>,
  \<open>0\<close>) or another truthy value (\<open>JsTruthy\<close>: a non-zero number, \<open>true\<close>, an object),
  which has no method \<open>toLowerCase\<close>. A value of the field is classified by what the
  expression makes of it:
  \<^item> \<open>JsNull\<close>: \<open>null\<close> or \<open>undefined\<close> (not a string, falsy: read as \<open>[]\<close>);
  \<^item> \<open>JsonArray vs\<close>: a string holding the JSON text of the array \<open>vs\<close> (what
    \<open>JSON.stringify\<close> writes for it; the empty string is read as \<open>'[]'\<close>, that is
    \<open>JsonArray []\<close>);
  \<^item> \<open>JsonOther\<close>: a string holding valid JSON that is not an array;
  \<^item> \<open>JsonMalformed\<close>: a non-empty string that \<open>JSON.parse\<close> rejects with a SyntaxError;
  \<^item> \<open>JsArray vs\<close>: an array that is already decoded.
\<close>

datatype js_value = JsString string | JsFalsy | JsTruthy

datatype json_column = JsNull | JsonArray "js_value list" | JsonOther | JsonMalformed
  | JsArray "js_value list"

text \<open>
  A row as \<open>SELECT *\<close> returns it. \<open>specialty\<close>, \<open>modality\<close> and \<open>frequency\<close> have no
  \<open>NOT NULL\<close> constraint, so they are optional. \<open>frequency\<close> is the numeric value of the
  column, a whole number. The two timestamp columns are left out: no function modelled here
  reads them.
\<close>

record TermRecord =
  term_id :: int
  heard_term :: string
  correct_term :: string
  specialty :: "string option"
  modality :: "string option"
  frequency :: "int option"
  variants :: json_column
  context_words :: json_column

text \<open>
  What the code throws: the error of \<open>DatabaseManager\<close> when \<open>this.db\<close> is not set, an
  error that the SQLite driver reports, the SyntaxError of \<open>JSON.parse\<close>, and the TypeError
  of the runtime.
\<close>

datatype error = DATABASE_CONNECTION_ERROR | SqlError | SyntaxError | TypeError

section \<open>DatabaseManager: the term repository\<close>

text \<open>
  The state of the repository: whether \<open>this.db\<close> is set, the rows of \<open>medical_terms\<close> in
  rowid order, and the largest rowid ever allocated (\<open>sqlite_sequence\<close>, kept for
  \<open>AUTOINCREMENT\<close>).
\<close>

record database =
  connected :: bool
  medical_terms :: "TermRecord list"
  seq :: int

text \<open>
  \<open>heard_term\<close> is \<open>UNIQUE COLLATE NOCASE\<close>. The collation compares the UTF-8 bytes of two
  values: it folds the letters A to Z, stops at the first NUL byte, and finds the values
  equal when the bytes up to there agree and the two values have the same number of bytes.
  A character below U+0080 is one byte, every other character of the strings here is two.
\<close>

definition utf8_length :: "string \<Rightarrow> nat" where
  "utf8_length s = sum_list (map (\<lambda>c. if (of_char c :: nat) < 128 then 1 else 2) s)"

definition nocase_key :: "string \<Rightarrow> string \<times> nat" where
  "nocase_key s = (map ascii_lower_char (takeWhile (\<lambda>c. c \<noteq> CHR 0x00) s), utf8_length s)"

definition nocase_eq :: "string \<Rightarrow> string \<Rightarrow> bool" where
  "nocase_eq a b = (nocase_key a = nocase_key b)"

text \<open>
  \<open>AUTOINCREMENT\<close>: a statement that inserts allocates a rowid one above both the largest
  rowid in the table (1 for an empty table) and the largest ever allocated, and records it
  in \<open>sqlite_sequence\<close>. An \<open>INSERT ... ON CONFLICT DO UPDATE\<close> allocates the rowid before
  it meets the conflict, so the sequence advances on its update path too. A rowid is a
  signed 64-bit number: once \<open>2^63 - 1\<close> has been allocated or is in the table, the
  statement fails with \<open>SQLITE_FULL\<close> and changes nothing.
\<close>

definition max_rowid :: int where
  "max_rowid = 2 ^ 63 - 1"

definition rowids_exhausted :: "database \<Rightarrow> bool" where
  "rowids_exhausted db =
     (max_rowid \<le> seq db \<or> list_ex (\<lambda>row. max_rowid \<le> term_id row) (medical_terms db))"

definition next_rowid :: "database \<Rightarrow> int" where
  "next_rowid db =
     (if medical_terms db = [] then max 1 (seq db + 1)
      else 1 + fold max (map term_id (medical_terms db)) (seq db))"

text \<open>
  \<open>frequency + 1\<close> in SQLite. An INTEGER is a signed 64-bit number; the sum that passes
  \<open>2^63 - 1\<close> is the REAL \<open>2^63\<close>, which the column keeps as a REAL, and adding 1 to a REAL
  of that size rounds back to it.
\<close>

definition sql_plus_1 :: "int \<Rightarrow> int" where
  "sql_plus_1 f = (if - (2 ^ 63) \<le> f \<and> f < 2 ^ 63 then f + 1 else f)"

text \<open>The right-hand side of \<open>ON CONFLICT(heard_term) DO UPDATE SET ...\<close>.\<close>

definition do_update :: "TermRecord \<Rightarrow> string \<Rightarrow> string option \<Rightarrow> string option \<Rightarrow>
    json_column \<Rightarrow> json_column \<Rightarrow> TermRecord" where
  "do_update row correct sp mo vs cw =
     row\<lparr>correct_term := correct, specialty := sp, modality := mo,
         frequency := map_option sql_plus_1 (frequency row),
         variants := vs, context_words := cw\<rparr>"

text \<open>\<open>JSON.stringify(variants || [])\<close> of an array of strings.\<close>

definition stringify :: "string list \<Rightarrow> json_column" where
  "stringify vs = JsonArray (map JsString vs)"

definition addOrUpdateMedicalTerm :: "database \<Rightarrow> string \<Rightarrow> string \<Rightarrow> string option \<Rightarrow>
    string option \<Rightarrow> string list \<Rightarrow> string list \<Rightarrow> (error + int) \<times> database" where
  "addOrUpdateMedicalTerm db heardTerm correctTerm sp mo vars contextWords =
     (let heardTermLower = trim (toLowerCase heardTerm);
          variantsJson = stringify vars;
          contextJson = stringify contextWords
      in if \<not> connected db then (Inl DATABASE_CONNECTION_ERROR, db)
         else if rowids_exhausted db then (Inl SqlError, db)
         else
           (case filter (\<lambda>row. nocase_eq (heard_term row) heardTermLower) (medical_terms db) of
              [] \<Rightarrow>
                (Inr (next_rowid db),
                 db\<lparr>medical_terms := medical_terms db @
                       [\<lparr>term_id = next_rowid db, heard_term = heardTermLower,
                         correct_term = trim correctTerm, specialty = sp, modality = mo,
                         frequency = Some 1, variants = variantsJson,
                         context_words = contextJson\<rparr>],
                     seq := next_rowid db\<rparr>)
            | hit # _ \<Rightarrow>
                (Inr (term_id hit),
                 db\<lparr>medical_terms :=
                       map (\<lambda>row. if nocase_eq (heard_term row) heardTermLower
                                  then do_update row (trim correctTerm) sp mo variantsJson contextJson
                                  else row)
                           (medical_terms db),
                     seq := next_rowid db\<rparr>)))"

text \<open>\<open>UPDATE medical_terms SET frequency = frequency + 1 WHERE id = ?\<close>\<close>

definition incrementTermFrequency :: "database \<Rightarrow> int \<Rightarrow> (error + unit) \<times> database" where
  "incrementTermFrequency db termId =
     (if \<not> connected db then (Inl DATABASE_CONNECTION_ERROR, db)
      else (Inr (),
            db\<lparr>medical_terms :=
                  map (\<lambda>row. if term_id row = termId
                             then row\<lparr>frequency := map_option sql_plus_1 (frequency row)\<rparr>
                             else row)
                      (medical_terms db)\<rparr>))"

text \<open>\<open>SELECT frequency FROM medical_terms WHERE id = ?\<close>, then \<open>row?.frequency ?? 0\<close>.
  The driver hands the number to JavaScript as a double, which is the column's value
  while that is below \<open>2^53\<close>.\<close>

definition getTermFrequency :: "database \<Rightarrow> int \<Rightarrow> error + int" where
  "getTermFrequency db termId =
     (if \<not> connected db then Inl DATABASE_CONNECTION_ERROR
      else (case filter (\<lambda>row. term_id row = termId) (medical_terms db) of
              [] \<Rightarrow> Inr 0
            | row # _ \<Rightarrow> (case frequency row of None \<Rightarrow> Inr 0 | Some f \<Rightarrow> Inr f)))"

text \<open>
  \<open>ORDER BY frequency DESC\<close>: SQLite sorts \<open>NULL\<close> below every integer, as the order on
  \<^typ>\<open>int option\<close> does. SQL leaves the order of rows that the keys do not separate
  open; the model keeps them in the order of the table.
\<close>

definition order_by_frequency_desc :: "TermRecord list \<Rightarrow> TermRecord list" where
  "order_by_frequency_desc rows = rev (sort_key frequency (rev rows))"

text \<open>\<open>LIMIT ?\<close>: a negative bound means no bound.\<close>

definition sql_limit :: "int \<Rightarrow> 'a list \<Rightarrow> 'a list" where
  "sql_limit n rows = (if n < 0 then rows else take (nat n) rows)"

definition getMostFrequentTerms :: "database \<Rightarrow> int \<Rightarrow> error + TermRecord list" where
  "getMostFrequentTerms db limit =
     (if \<not> connected db then Inl DATABASE_CONNECTION_ERROR
      else Inr (sql_limit limit (order_by_frequency_desc (medical_terms db))))"

text \<open>
  SQLite's \<open>LIKE\<close>: \<open>%\<close> matches any run of characters, \<open>_\<close> any one character, and
  ASCII letters match without regard to case. The first argument is the pattern.
\<close>

fun sql_like :: "string \<Rightarrow> string \<Rightarrow> bool" where
  "sql_like [] s = (s = [])"
| "sql_like (p # ps) [] = (p = CHR ''%'' \<and> sql_like ps [])"
| "sql_like (p # ps) (c # cs) =
     (if p = CHR ''%'' then sql_like ps (c # cs) \<or> sql_like (p # ps) cs
      else if p = CHR ''_'' then sql_like ps cs
      else ascii_lower_char p = ascii_lower_char c \<and> sql_like ps cs)"

text \<open>A JavaScript condition \<open>if (specialty)\<close> on an optional string: \<open>null\<close> and the
  empty string are falsy.\<close>

definition truthy :: "string option \<Rightarrow> bool" where
  "truthy x = (case x of None \<Rightarrow> False | Some s \<Rightarrow> s \<noteq> [])"

text \<open>The part of the \<open>WHERE\<close> clause that \<open>findSimilarTerms\<close> adds for the two scoping
  tags: each condition is added only when the requested tag is truthy.\<close>

definition where_filters :: "TermRecord \<Rightarrow> string option \<Rightarrow> string option \<Rightarrow> bool" where
  "where_filters row sp mo =
     ((if truthy sp then specialty row = sp \<or> specialty row = None else True) \<and>
      (if truthy mo then modality row = mo \<or> modality row = None else True))"

text \<open>
  \<open>ORDER BY frequency DESC, length(heard_term) ASC LIMIT ?\<close>. The order of rows equal in
  both keys is the order in which the query plan meets them, which SQL leaves open; the
  model takes the order of the table.
\<close>

definition findSimilarTerms :: "database \<Rightarrow> string \<Rightarrow> string option \<Rightarrow> string option \<Rightarrow>
    int \<Rightarrow> error + TermRecord list" where
  "findSimilarTerms db heardTerm sp mo limit =
     (let heardTermLower = trim (toLowerCase heardTerm)
      in if \<not> connected db then Inl DATABASE_CONNECTION_ERROR
         else Inr (sql_limit limit
                (order_by_frequency_desc
                   (sort_key (\<lambda>row. length (heard_term row))
                      (filter (\<lambda>row. sql_like (heardTermLower @ ''%'') (heard_term row) \<and>
                                     where_filters row sp mo)
                         (medical_terms db))))))"

text \<open>The eligibility rule in the words of the specification: a null tag of the term is a
  wildcard, and otherwise the tag equals the requested one.\<close>

definition matchesFilters_spec :: "TermRecord \<Rightarrow> string option \<Rightarrow> string option \<Rightarrow> bool" where
  "matchesFilters_spec row sp mo =
     ((specialty row = None \<or> specialty row = sp) \<and>
      (modality row = None \<or> modality row = mo))"

text \<open>The two invariants of the table that the schema and the upsert maintain.\<close>

definition heard_unique :: "database \<Rightarrow> bool" where
  "heard_unique db = distinct (map (\<lambda>row. nocase_key (heard_term row)) (medical_terms db))"

definition frequency_nonneg :: "database \<Rightarrow> bool" where
  "frequency_nonneg db =
     list_all (\<lambda>row. case frequency row of None \<Rightarrow> False | Some f \<Rightarrow> 0 \<le> f)
       (medical_terms db)"

section \<open>MedicalTermReplacementService: state\<close>

record ReplacementRecord =
  matched_id :: int
  original :: string
  replacement :: string
  textIndices :: "(nat \<times> nat) option"
  originalFullTextOffset :: nat

text \<open>
  The fields of the service that the functions below read or write. The three indices are
  JavaScript objects used as dictionaries; a bucket of the first two is an array that
  \<open>push\<close> extends at its end. \<open>frequencyUpdateBatch\<close> maps a term id to its pending
  count.
\<close>

record engine =
  cacheLimit :: int
  cacheUpdateInterval :: int
  memoryWarningThreshold :: rat
  maxReplacementHistory :: nat
  cachedTerms :: "TermRecord list"
  replacementHistory :: "ReplacementRecord list"
  cacheLastUpdated :: int
  hasTriggeredWarning :: bool
  termIndexByLength :: "nat \<rightharpoonup> TermRecord list"
  termIndexByFirstChar :: "string \<rightharpoonup> TermRecord list"
  frequentTermsCache :: "string \<rightharpoonup> TermRecord"
  frequencyUpdateBatch :: "(int \<times> nat) list"

text \<open>The constructor: \<open>options.x || default\<close> takes the default for a missing or zero
  option.\<close>

record service_options =
  opt_cacheLimit :: "int option"
  opt_cacheUpdateInterval :: "int option"
  opt_memoryWarningThreshold :: "rat option"
  opt_maxReplacementHistory :: "nat option"

definition or_default :: "'a::zero option \<Rightarrow> 'a \<Rightarrow> 'a" where
  "or_default x d = (case x of None \<Rightarrow> d | Some v \<Rightarrow> if v = 0 then d else v)"

definition new_service :: "service_options \<Rightarrow> engine" where
  "new_service options =
     \<lparr>cacheLimit = or_default (opt_cacheLimit options) 1000,
      cacheUpdateInterval = or_default (opt_cacheUpdateInterval options) (10 * 60 * 1000),
      memoryWarningThreshold = or_default (opt_memoryWarningThreshold options) (8 / 10),
      maxReplacementHistory = or_default (opt_maxReplacementHistory options) 100,
      cachedTerms = [], replacementHistory = [], cacheLastUpdated = 0,
      hasTriggeredWarning = False, termIndexByLength = Map.empty,
      termIndexByFirstChar = Map.empty, frequentTermsCache = Map.empty,
      frequencyUpdateBatch = []\<rparr>"

text \<open>
  The repository as the service sees it: an object \<open>dbManager\<close> over some state \<open>'r\<close>.
  The service tests two of its methods for presence (\<open>this.dbManager?.m\<close>) before calling
  them, so these are optional. Every call may fail (\<open>Inl\<close>).
\<close>

record 'r repository =
  repo_getMostFrequentTerms :: "('r \<Rightarrow> int \<Rightarrow> error + TermRecord list) option"
  repo_addOrUpdateMedicalTerm :: "('r \<Rightarrow> string \<Rightarrow> string \<Rightarrow> string option \<Rightarrow> string option \<Rightarrow>
      string list \<Rightarrow> string list \<Rightarrow> (error + int) \<times> 'r) option"
  repo_incrementTermFrequency :: "'r \<Rightarrow> int \<Rightarrow> (error + unit) \<times> 'r"

definition DatabaseManager :: "database repository" where
  "DatabaseManager =
     \<lparr>repo_getMostFrequentTerms = Some getMostFrequentTerms,
      repo_addOrUpdateMedicalTerm = Some addOrUpdateMedicalTerm,
      repo_incrementTermFrequency = incrementTermFrequency\<rparr>"

text \<open>What \<open>process.memoryUsage()\<close> returns, in bytes.\<close>

record memoryUsage =
  heapUsed :: nat
  heapTotal :: nat
  rss :: nat

section \<open>MedicalTermReplacementService: cache and indices\<close>

text \<open>
  A function that can throw after it has changed the state returns the outcome together
  with the state as the exception leaves it.
\<close>

text \<open>\<open>if (!index[key]) index[key] = []; index[key].push(term)\<close>\<close>

definition push_bucket :: "('k \<rightharpoonup> 'v list) \<Rightarrow> 'k \<Rightarrow> 'v \<Rightarrow> ('k \<rightharpoonup> 'v list)" where
  "push_bucket index k v = index(k \<mapsto> (case index k of None \<Rightarrow> [] | Some b \<Rightarrow> b) @ [v])"

text \<open>
  The expression that decodes \<open>term.variants\<close>: \<open>Inl\<close> when \<open>JSON.parse\<close> throws,
  \<open>Inr None\<close> when the value is not an array, \<open>Inr (Some vs)\<close> for the array \<open>vs\<close>.
\<close>

definition decode_variants :: "json_column \<Rightarrow> error + js_value list option" where
  "decode_variants v =
     (case v of
        JsNull \<Rightarrow> Inr (Some [])
      | JsonArray vs \<Rightarrow> Inr (Some vs)
      | JsonOther \<Rightarrow> Inr None
      | JsonMalformed \<Rightarrow> Inl SyntaxError
      | JsArray vs \<Rightarrow> Inr (Some vs))"

text \<open>\<open>term.frequency && term.frequency > 5\<close>\<close>

definition is_frequent :: "TermRecord \<Rightarrow> bool" where
  "is_frequent t = (case frequency t of None \<Rightarrow> False | Some f \<Rightarrow> 5 < f)"

text \<open>\<open>for (const variant of variants) if (variant) this.frequentTermsCache[variant.toLowerCase()] = term\<close>\<close>

fun add_variants :: "TermRecord \<Rightarrow> js_value list \<Rightarrow> (string \<rightharpoonup> TermRecord) \<Rightarrow>
    (error + unit) \<times> (string \<rightharpoonup> TermRecord)" where
  "add_variants t [] m = (Inr (), m)"
| "add_variants t (JsString variant # vs) m =
     add_variants t vs (if variant \<noteq> [] then m(toLowerCase variant \<mapsto> t) else m)"
| "add_variants t (JsFalsy # vs) m = add_variants t vs m"
| "add_variants t (JsTruthy # vs) m = (Inl TypeError, m)"

text \<open>The body of the loop of \<open>_rebuildTermIndices\<close> for one term.\<close>

definition index_term :: "TermRecord \<Rightarrow> engine \<Rightarrow> (error + unit) \<times> engine" where
  "index_term t s =
     (let heardTermLower = toLowerCase (heard_term t);
          termLength = length heardTermLower;
          s1 = s\<lparr>termIndexByLength := push_bucket (termIndexByLength s) termLength t\<rparr>;
          firstChar = take 1 heardTermLower;
          s2 = s1\<lparr>termIndexByFirstChar := push_bucket (termIndexByFirstChar s1) firstChar t\<rparr>
      in if is_frequent t
         then (let s3 = s2\<lparr>frequentTermsCache := (frequentTermsCache s2)(heardTermLower \<mapsto> t)\<rparr>
               in case decode_variants (variants t) of
                    Inl e \<Rightarrow> (Inl e, s3)
                  | Inr None \<Rightarrow> (Inr (), s3)
                  | Inr (Some vs) \<Rightarrow>
                      (case add_variants t vs (frequentTermsCache s3) of
                         (outcome, m) \<Rightarrow> (outcome, s3\<lparr>frequentTermsCache := m\<rparr>)))
         else (Inr (), s2))"

fun index_terms :: "TermRecord list \<Rightarrow> engine \<Rightarrow> (error + unit) \<times> engine" where
  "index_terms [] s = (Inr (), s)"
| "index_terms (t # ts) s =
     (case index_term t s of
        (Inl e, s') \<Rightarrow> (Inl e, s')
      | (Inr u, s') \<Rightarrow> index_terms ts s')"

definition reset_indices :: "engine \<Rightarrow> engine" where
  "reset_indices s =
     s\<lparr>termIndexByLength := Map.empty, termIndexByFirstChar := Map.empty,
       frequentTermsCache := Map.empty\<rparr>"

definition rebuildTermIndices :: "engine \<Rightarrow> (error + unit) \<times> engine" where
  "rebuildTermIndices s = index_terms (cachedTerms s) (reset_indices s)"

text \<open>\<open>(b.frequency || 0) - (a.frequency || 0)\<close> as the comparator of \<open>Array.prototype.sort\<close>,
  which is stable: descending by \<open>frequency || 0\<close>, equal keys in their previous order.\<close>

definition frequency_or_0 :: "TermRecord \<Rightarrow> int" where
  "frequency_or_0 t = (case frequency t of None \<Rightarrow> 0 | Some f \<Rightarrow> f)"

definition sort_by_frequency :: "TermRecord list \<Rightarrow> TermRecord list" where
  "sort_by_frequency ts = sort_key (\<lambda>t. - frequency_or_0 t) ts"

text \<open>\<open>xs.slice(0, n)\<close>: a negative \<open>n\<close> counts from the end.\<close>

definition slice0 :: "'a list \<Rightarrow> int \<Rightarrow> 'a list" where
  "slice0 xs n = (if n < 0 then take (length xs - nat (- n)) xs else take (nat n) xs)"

definition reduceCacheSize :: "int \<Rightarrow> engine \<Rightarrow> (error + unit) \<times> engine" where
  "reduceCacheSize newLimit s =
     (if int (length (cachedTerms s)) \<le> newLimit then (Inr (), s)
      else rebuildTermIndices (s\<lparr>cachedTerms := slice0 (sort_by_frequency (cachedTerms s)) newLimit\<rparr>))"

text \<open>
  Modelled from the spec: the body of \<open>clearCache\<close> is not in the sources. "clear():
  empty cache and all indices; does not touch the Repository."
\<close>

definition clearCache :: "engine \<Rightarrow> engine" where
  "clearCache s = reset_indices (s\<lparr>cachedTerms := []\<rparr>)"

text \<open>
  Modelled from the spec: the body of \<open>_flushFrequencyBatch\<close> is not in the sources.
  "for every entry in the batch, issue a repository increment-by-N (or N sequential
  increments if the repository only exposes unit increments), then clear the batch";
  "safe to call with an empty batch (no-op)". The repository exposes unit increments. A
  failed increment ends the flush with that error and leaves the batch as it was.
\<close>

fun increment_times :: "'r repository \<Rightarrow> int \<Rightarrow> nat \<Rightarrow> 'r \<Rightarrow> (error + unit) \<times> 'r" where
  "increment_times api termId 0 r = (Inr (), r)"
| "increment_times api termId (Suc n) r =
     (case repo_incrementTermFrequency api r termId of
        (Inl e, r') \<Rightarrow> (Inl e, r')
      | (Inr u, r') \<Rightarrow> increment_times api termId n r')"

fun flush_entries :: "'r repository \<Rightarrow> (int \<times> nat) list \<Rightarrow> 'r \<Rightarrow> (error + unit) \<times> 'r" where
  "flush_entries api [] r = (Inr (), r)"
| "flush_entries api ((termId, n) # rest) r =
     (case increment_times api termId n r of
        (Inl e, r') \<Rightarrow> (Inl e, r')
      | (Inr u, r') \<Rightarrow> flush_entries api rest r')"

definition flushFrequencyBatch :: "'r repository \<Rightarrow> engine \<Rightarrow> 'r \<Rightarrow> (error + unit) \<times> engine \<times> 'r" where
  "flushFrequencyBatch api s r =
     (case flush_entries api (frequencyUpdateBatch s) r of
        (Inl e, r') \<Rightarrow> (Inl e, s, r')
      | (Inr u, r') \<Rightarrow> (Inr (), s\<lparr>frequencyUpdateBatch := []\<rparr>, r'))"

section \<open>MedicalTermReplacementService: memory monitor\<close>

text \<open>\<open>Math.round(bytes / 1024 / 1024)\<close>: the nearest integer, a half rounded up.\<close>

definition round_MB :: "nat \<Rightarrow> int" where
  "round_MB bytes = \<lfloor>rat_of_nat bytes / 1024 / 1024 + 1 / 2\<rfloor>"

definition heapUsagePercentage :: "memoryUsage \<Rightarrow> rat" where
  "heapUsagePercentage m =
     (if heapTotal m > 0 then rat_of_nat (heapUsed m) / rat_of_nat (heapTotal m) else 0)"

text \<open>
  The body of the \<open>try\<close> of \<open>_checkMemoryUsage\<close>. The flush after the reduction is not
  awaited and its rejection is caught by \<open>.catch\<close>; the model runs it to its end at once
  and drops its error.
\<close>

definition checkMemoryUsage_try :: "'r repository \<Rightarrow> memoryUsage \<Rightarrow> engine \<Rightarrow> 'r \<Rightarrow>
    (error + unit) \<times> engine \<times> 'r" where
  "checkMemoryUsage_try api m s r =
     (if heapUsagePercentage m > 85 / 100 \<and>
         rat_of_nat (length (cachedTerms s)) > rat_of_int (cacheLimit s) * (1 / 2)
      then (case reduceCacheSize \<lfloor>rat_of_int (cacheLimit s) * (1 / 2)\<rfloor> s of
              (Inl e, s1) \<Rightarrow> (Inl e, s1, r)
            | (Inr u, s1) \<Rightarrow>
                (case flushFrequencyBatch api s1 r of (outcome, s2, r2) \<Rightarrow> (Inr (), s2, r2)))
      else if round_MB (rss m) > 500 then (Inr (), clearCache s, r)
      else (Inr (), s, r))"

text \<open>\<open>try { ... } catch (error) { this.logger.error(...) }\<close>: the error is logged and dropped.\<close>

definition checkMemoryUsage :: "'r repository \<Rightarrow> memoryUsage \<Rightarrow> engine \<Rightarrow> 'r \<Rightarrow> engine \<times> 'r" where
  "checkMemoryUsage api m s r =
     (case checkMemoryUsage_try api m s r of (outcome, s', r') \<Rightarrow> (s', r'))"

section \<open>MedicalTermReplacementService: cache refresh\<close>

text \<open>The guard at the head of \<open>refreshCache\<close>; \<open>now\<close> is the reading of \<open>Date.now()\<close>.\<close>

definition cache_is_fresh :: "engine \<Rightarrow> int \<Rightarrow> bool" where
  "cache_is_fresh s now =
     (length (cachedTerms s) > 0 \<and> now - cacheLastUpdated s < cacheUpdateInterval s)"

text \<open>The warning flag. The bound \<open>cacheLimit * memoryWarningThreshold\<close> is a product of
  doubles in the code and of rationals here, which can differ by a rounding; the flag is
  written here and read nowhere else.\<close>

definition update_warning :: "engine \<Rightarrow> engine" where
  "update_warning s =
     (let size = rat_of_nat (length (cachedTerms s));
          bound = rat_of_int (cacheLimit s) * memoryWarningThreshold s
      in if size \<ge> bound \<and> \<not> hasTriggeredWarning s then s\<lparr>hasTriggeredWarning := True\<rparr>
         else if size < bound then s\<lparr>hasTriggeredWarning := False\<rparr>
         else s)"

text \<open>The body of the \<open>try\<close> of \<open>refreshCache\<close>. A repository that resolves with
  \<open>null\<close> is read as the empty list (\<open>newTerms || []\<close>).\<close>

definition refreshCache_try :: "'r repository \<Rightarrow> int \<Rightarrow> memoryUsage \<Rightarrow> engine \<Rightarrow> 'r \<Rightarrow>
    (error + unit) \<times> engine \<times> 'r" where
  "refreshCache_try api now m s r =
     (case flushFrequencyBatch api s r of
        (Inl e, s1, r1) \<Rightarrow> (Inl e, s1, r1)
      | (Inr u, s1, r1) \<Rightarrow>
          (case repo_getMostFrequentTerms api of
             None \<Rightarrow> (Inr (), s1, r1)
           | Some fetch \<Rightarrow>
               (case fetch r1 (cacheLimit s1) of
                  Inl e \<Rightarrow> (Inl e, s1, r1)
                | Inr newTerms \<Rightarrow>
                    (case rebuildTermIndices (s1\<lparr>cachedTerms := newTerms, cacheLastUpdated := now\<rparr>) of
                       (Inl e, s2) \<Rightarrow> (Inl e, s2, r1)
                     | (Inr u, s2) \<Rightarrow>
                         (case checkMemoryUsage api m (update_warning s2) r1 of
                            (s3, r3) \<Rightarrow> (Inr (), s3, r3))))))"

definition refreshCache :: "'r repository \<Rightarrow> int \<Rightarrow> memoryUsage \<Rightarrow> engine \<Rightarrow> 'r \<Rightarrow>
    (error + unit) \<times> engine \<times> 'r" where
  "refreshCache api now m s r =
     (if cache_is_fresh s now then (Inr (), s, r)
      else (let oldCacheSize = length (cachedTerms s)
            in case refreshCache_try api now m s r of
                 (Inl e, s', r') \<Rightarrow>
                   (if oldCacheSize = 0
                    then (case rebuildTermIndices (s'\<lparr>cachedTerms := []\<rparr>) of
                            (outcome, s'') \<Rightarrow> (outcome, s'', r'))
                    else (Inr (), s', r'))
               | (Inr u, s', r') \<Rightarrow> (Inr (), s', r')))"

section \<open>MedicalTermReplacementService: public methods\<close>

text \<open>
  The bodies of \<open>_splitIntoSentences\<close> and \<open>_processSentence\<close> are not in the sources and
  the specification does not fix them (the splitting expression and the ranking constants
  are "not recoverable"). They are parameters: any function, failing or not.
\<close>

record 'r helpers =
  splitIntoSentences :: "string \<Rightarrow> error + string list"
  processSentence :: "engine \<Rightarrow> 'r \<Rightarrow> string \<Rightarrow> string option \<Rightarrow> string option \<Rightarrow>
      (error + string \<times> ReplacementRecord list) \<times> engine \<times> 'r"

text \<open>The callback of \<open>sentenceReplacements.forEach\<close>.\<close>

definition shift_replacement :: "nat \<Rightarrow> ReplacementRecord \<Rightarrow> ReplacementRecord" where
  "shift_replacement currentOffset rep =
     rep\<lparr>textIndices := map_option (\<lambda>(a, b). (a + currentOffset, b + currentOffset)) (textIndices rep),
         originalFullTextOffset := currentOffset\<rparr>"

text \<open>The loop \<open>for (const sentence of sentences)\<close> of \<open>processText\<close>; the accumulator is
  \<open>(processedText, allReplacements, currentOffset)\<close>.\<close>

fun process_sentences :: "'r helpers \<Rightarrow> string option \<Rightarrow> string option \<Rightarrow> string list \<Rightarrow>
    string \<times> ReplacementRecord list \<times> nat \<Rightarrow> engine \<Rightarrow> 'r \<Rightarrow>
    (error + string \<times> ReplacementRecord list \<times> nat) \<times> engine \<times> 'r" where
  "process_sentences hp sp mo [] acc s r = (Inr acc, s, r)"
| "process_sentences hp sp mo (sentence # rest) (processedText, allReplacements, currentOffset) s r =
     (case processSentence hp s r sentence sp mo of
        (Inl e, s', r') \<Rightarrow> (Inl e, s', r')
      | (Inr (processedSentence, sentenceReplacements), s', r') \<Rightarrow>
          process_sentences hp sp mo rest
            (processedText @ processedSentence,
             allReplacements @ map (shift_replacement currentOffset) sentenceReplacements,
             currentOffset + length sentence) s' r')"

text \<open>
  Modelled from the spec: the body of \<open>_recordReplacements\<close> is not in the sources.
  "appends all replacements to the bounded replacement-history buffer (capacity
  maxReplacementHistory; oldest entries drop first)".
\<close>

definition recordReplacements :: "ReplacementRecord list \<Rightarrow> engine \<Rightarrow> engine" where
  "recordReplacements reps s =
     (let h = replacementHistory s @ reps
      in s\<lparr>replacementHistory := drop (length h - maxReplacementHistory s) h\<rparr>)"

text \<open>Splitting and the sentence loop on one piece of text, as \<open>processText\<close> runs them.\<close>

definition process_piece :: "'r helpers \<Rightarrow> string option \<Rightarrow> string option \<Rightarrow> string \<Rightarrow> engine \<Rightarrow> 'r \<Rightarrow>
    (error + string \<times> ReplacementRecord list) \<times> engine \<times> 'r" where
  "process_piece hp sp mo piece s r =
     (case splitIntoSentences hp piece of
        Inl e \<Rightarrow> (Inl e, s, r)
      | Inr sentences \<Rightarrow>
          (case process_sentences hp sp mo sentences ([], [], 0) s r of
             (Inl e, s', r') \<Rightarrow> (Inl e, s', r')
           | (Inr (processedText, allReplacements, currentOffset), s', r') \<Rightarrow>
               (Inr (processedText, allReplacements), s', r')))"

text \<open>
  Modelled from the spec: the body of \<open>_processLargeText\<close> is not in the sources.
  "splits into fixed-size chunks (10,000 characters), processes each independently, and
  concatenates results, preserving per-block offset accounting so replacement spans remain
  correct in the combined output". Each block goes through the splitting and the sentence
  loop, and its spans are moved by the offset of the block in the full text.
\<close>

fun process_blocks :: "'r helpers \<Rightarrow> string option \<Rightarrow> string option \<Rightarrow> string list \<Rightarrow>
    string \<times> ReplacementRecord list \<times> nat \<Rightarrow> engine \<Rightarrow> 'r \<Rightarrow>
    (error + string \<times> ReplacementRecord list \<times> nat) \<times> engine \<times> 'r" where
  "process_blocks hp sp mo [] acc s r = (Inr acc, s, r)"
| "process_blocks hp sp mo (block # rest) (processedText, allReplacements, blockOffset) s r =
     (case process_piece hp sp mo block s r of
        (Inl e, s', r') \<Rightarrow> (Inl e, s', r')
      | (Inr (processedBlock, blockReplacements), s', r') \<Rightarrow>
          process_blocks hp sp mo rest
            (processedText @ processedBlock,
             allReplacements @
               map (\<lambda>rep. rep\<lparr>textIndices := map_option (\<lambda>(a, b). (a + blockOffset, b + blockOffset))
                                                (textIndices rep)\<rparr>) blockReplacements,
             blockOffset + length block) s' r')"

function blocks_of :: "nat \<Rightarrow> string \<Rightarrow> string list" where
  "blocks_of blockSize txt =
     (if blockSize = 0 \<or> txt = [] then []
      else take blockSize txt # blocks_of blockSize (drop blockSize txt))"
  by pat_completeness auto
termination
  by (relation "measure (\<lambda>(blockSize, txt). length txt)") auto

declare blocks_of.simps [simp del]

definition processLargeText :: "'r helpers \<Rightarrow> engine \<Rightarrow> 'r \<Rightarrow> string \<Rightarrow> string option \<Rightarrow> string option \<Rightarrow>
    nat \<Rightarrow> (error + string \<times> ReplacementRecord list) \<times> engine \<times> 'r" where
  "processLargeText hp s r txt sp mo blockSize =
     (case process_blocks hp sp mo (blocks_of blockSize txt) ([], [], 0) s r of
        (Inl e, s', r') \<Rightarrow> (Inl e, s', r')
      | (Inr (processedText, allReplacements, blockOffset), s', r') \<Rightarrow>
          (Inr (processedText, allReplacements), recordReplacements allReplacements s', r'))"

text \<open>
  The body of the \<open>try\<close> of \<open>processText\<close>; the result is the pair of the fields \<open>text\<close>
  and \<open>replacements\<close>. The deferred flush that \<open>setTimeout\<close> schedules when there are more
  than five replacements runs after the call has returned and is not part of it.
\<close>

definition processText_try :: "'r repository \<Rightarrow> 'r helpers \<Rightarrow> int \<Rightarrow> memoryUsage \<Rightarrow> engine \<Rightarrow> 'r \<Rightarrow>
    string \<Rightarrow> string option \<Rightarrow> string option \<Rightarrow>
    (error + string \<times> ReplacementRecord list) \<times> engine \<times> 'r" where
  "processText_try api hp now m s r txt sp mo =
     (if txt = [] \<or> trim txt = [] then (Inr (txt, []), s, r)
      else (case refreshCache api now m s r of
              (Inl e, s1, r1) \<Rightarrow> (Inl e, s1, r1)
            | (Inr u, s1, r1) \<Rightarrow>
                (if length txt > 15000 then processLargeText hp s1 r1 txt sp mo 10000
                 else (case process_piece hp sp mo txt s1 r1 of
                         (Inl e, s2, r2) \<Rightarrow> (Inl e, s2, r2)
                       | (Inr (processedText, allReplacements), s2, r2) \<Rightarrow>
                           (Inr (processedText, allReplacements),
                            recordReplacements allReplacements s2, r2)))))"

text \<open>\<open>catch (error) { ...; return { text, replacements: [] }; }\<close>\<close>

definition processText :: "'r repository \<Rightarrow> 'r helpers \<Rightarrow> int \<Rightarrow> memoryUsage \<Rightarrow> engine \<Rightarrow> 'r \<Rightarrow>
    string \<Rightarrow> string option \<Rightarrow> string option \<Rightarrow>
    (error + string \<times> ReplacementRecord list) \<times> engine \<times> 'r" where
  "processText api hp now m s r txt sp mo =
     (case processText_try api hp now m s r txt sp mo of
        (Inl e, s', r') \<Rightarrow> (Inr (txt, []), s', r')
      | (Inr res, s', r') \<Rightarrow> (Inr res, s', r'))"

text \<open>The options of \<open>addOrUpdateTerm\<close>, after the defaults of the destructuring.\<close>

record term_options =
  o_specialty :: "string option"
  o_modality :: "string option"
  o_variants :: "string list"
  o_contextWords :: "string list"

text \<open>\<open>addOrUpdateTerm\<close> returns the term id, or \<open>null\<close> (\<open>None\<close>).\<close>

definition addOrUpdateTerm :: "'r repository \<Rightarrow> int \<Rightarrow> memoryUsage \<Rightarrow> engine \<Rightarrow> 'r \<Rightarrow>
    string \<Rightarrow> string \<Rightarrow> term_options \<Rightarrow> (error + int option) \<times> engine \<times> 'r" where
  "addOrUpdateTerm api now m s r heardTerm correctTerm options =
     (if heardTerm = [] \<or> correctTerm = [] then (Inr None, s, r)
      else (case repo_addOrUpdateMedicalTerm api of
              None \<Rightarrow> (Inr None, s, r)
            | Some upsert \<Rightarrow>
                (case upsert r heardTerm correctTerm (o_specialty options) (o_modality options)
                        (o_variants options) (o_contextWords options) of
                   (Inl e, r1) \<Rightarrow> (Inr None, s, r1)
                 | (Inr termId, r1) \<Rightarrow>
                     (case refreshCache api now m s r1 of
                        (Inl e, s2, r2) \<Rightarrow> (Inr None, s2, r2)
                      | (Inr u, s2, r2) \<Rightarrow> (Inr (Some termId), s2, r2)))))"

section \<open>Notions the claims are stated with\<close>

text \<open>The indices are in step with the cache: rebuilding them from \<open>cachedTerms\<close> runs to
  its end and changes nothing.\<close>

definition indices_consistent :: "engine \<Rightarrow> bool" where
  "indices_consistent s = (rebuildTermIndices s = (Inr (), s))"

text \<open>
  Modelled from the spec: the body of \<open>_findMatchingTermEfficient\<close> is not in the sources.
  Its first tier is the "exact/frequent lookup: lower-case the fragment, check the
  frequent-lookup map built by the Cache".
\<close>

definition exact_lookup :: "engine \<Rightarrow> string \<Rightarrow> TermRecord option" where
  "exact_lookup s fragment = frequentTermsCache s (toLowerCase fragment)"

text \<open>A replacement record whose span, when it has one, lies in the text and covers the
  original fragment.\<close>

definition span_ok :: "string \<Rightarrow> ReplacementRecord \<Rightarrow> bool" where
  "span_ok txt rep =
     (case textIndices rep of
        None \<Rightarrow> True
      | Some (a, b) \<Rightarrow> a \<le> b \<and> b \<le> length txt \<and> substring txt a b = original rep)"

text \<open>No frequent term of the list carries a \<open>variants\<close> value on which the rebuild
  throws: a text that \<open>JSON.parse\<close> rejects, or an array with a truthy element that is not
  a string.\<close>

definition variants_parse :: "TermRecord list \<Rightarrow> bool" where
  "variants_parse ts =
     list_all (\<lambda>t. if is_frequent t
                   then (case decode_variants (variants t) of
                           Inl e \<Rightarrow> False
                         | Inr None \<Rightarrow> True
                         | Inr (Some vs) \<Rightarrow> JsTruthy \<notin> set vs)
                   else True) ts"

section \<open>Concrete tables and states\<close>

definition row_nodulo :: TermRecord where
  "row_nodulo =
     \<lparr>term_id = 1, heard_term = ''nodulo'', correct_term = ''nodule'',
      specialty = Some ''cardio'', modality = None, frequency = Some 3,
      variants = JsonArray [], context_words = JsonArray []\<rparr>"

definition row_nodular :: TermRecord where
  "row_nodular =
     \<lparr>term_id = 2, heard_term = ''nodular'', correct_term = ''nodular'',
      specialty = None, modality = None, frequency = Some 9,
      variants = JsonArray [], context_words = JsonArray []\<rparr>"

definition db_one :: database where
  "db_one = \<lparr>connected = True, medical_terms = [row_nodulo], seq = 1\<rparr>"

definition db_two :: database where
  "db_two = \<lparr>connected = True, medical_terms = [row_nodulo, row_nodular], seq = 2\<rparr>"

definition row_quiste :: TermRecord where
  "row_quiste =
     \<lparr>term_id = 3, heard_term = ''quiste'', correct_term = ''Quiste'',
      specialty = None, modality = None, frequency = Some 1,
      variants = JsonArray [], context_words = JsonArray []\<rparr>"

text \<open>A row whose \<open>variants\<close> text is not JSON, and a frequent row stored after it.\<close>

definition row_eco :: TermRecord where
  "row_eco =
     \<lparr>term_id = 4, heard_term = ''eco'', correct_term = ''ecografia'',
      specialty = None, modality = None, frequency = Some 8,
      variants = JsonMalformed, context_words = JsonArray []\<rparr>"

definition row_masa :: TermRecord where
  "row_masa =
     \<lparr>term_id = 5, heard_term = ''masa'', correct_term = ''Masa'',
      specialty = None, modality = None, frequency = Some 7,
      variants = JsonArray [], context_words = JsonArray []\<rparr>"

definition default_options :: service_options where
  "default_options =
     \<lparr>opt_cacheLimit = None, opt_cacheUpdateInterval = None,
      opt_memoryWarningThreshold = None, opt_maxReplacementHistory = None\<rparr>"

text \<open>A service with the default configuration holding three terms.\<close>

definition engine_three :: engine where
  "engine_three = (new_service default_options)\<lparr>cachedTerms := [row_nodulo, row_nodular, row_quiste]\<rparr>"

text \<open>Memory readings: an idle process, and one with both a full heap and a large
  resident set.\<close>

definition mem_low :: memoryUsage where
  "mem_low = \<lparr>heapUsed = 52428800, heapTotal = 104857600, rss = 209715200\<rparr>"

definition mem_both :: memoryUsage where
  "mem_both = \<lparr>heapUsed = 94371840, heapTotal = 104857600, rss = 629145600\<rparr>"

text \<open>A service configured with \<open>cacheLimit = 4\<close> holding three terms.\<close>

definition engine_small :: engine where
  "engine_small = engine_three\<lparr>cacheLimit := 4\<rparr>"

text \<open>A table in which the row \<open>eco\<close> carries a \<open>variants\<close> text that is not JSON.\<close>

definition db_bad :: database where
  "db_bad = \<lparr>connected = True, medical_terms = [row_nodulo, row_eco, row_masa], seq = 5\<rparr>"

text \<open>The service after its first refresh, at time 1000000, from the one-row table.\<close>

definition engine_loaded :: engine where
  "engine_loaded =
     fst (snd (refreshCache DatabaseManager 1000000 mem_low (new_service default_options) db_one))"

text \<open>The one-row table behind a connection that is down.\<close>

definition db_down :: database where
  "db_down = db_one\<lparr>connected := False\<rparr>"

definition no_options :: term_options where
  "no_options = \<lparr>o_specialty = None, o_modality = None, o_variants = [], o_contextWords = []\<rparr>"

text \<open>Helpers of which the second throws on every sentence.\<close>

definition helpers_failing :: "database helpers" where
  "helpers_failing =
     \<lparr>splitIntoSentences = (\<lambda>txt. Inr [txt]),
      processSentence = (\<lambda>s r sentence sp mo. (Inl TypeError, s, r))\<rparr>"

text \<open>A table whose only heard term is \<open>n\<close>, U+00F3, \<open>dulo\<close>.\<close>

definition db_accent :: database where
  "db_accent =
     \<lparr>connected = True,
      medical_terms = [row_nodulo\<lparr>heard_term := ''n'' @ [CHR 0xF3] @ ''dulo''\<rparr>],
      seq = 1\<rparr>"

section \<open>The string operations at work\<close>

text \<open>\<open>toLowerCase\<close> folds the accented capitals and leaves the multiplication sign and the
  sharp s; \<open>trim\<close> removes the no-break space and the tab with the spaces.\<close>

lemma toLowerCase_example:
  "toLowerCase (''N'' @ [CHR 0xD3, CHR 0xD7, CHR 0xDF] @ ''x1'') =
     ''n'' @ [CHR 0xF3, CHR 0xD7, CHR 0xDF] @ ''x1''"
  by (simp add: toLowerCase_def lower_char_def)

lemma trim_example: "trim ([CHR 0xA0] @ '' a b '' @ [CHR 0x09]) = ''a b''"
  by (simp add: trim_def is_space_def)

text \<open>\<open>NOCASE\<close> folds A to Z and not the accented capitals; it does not look behind a NUL
  but counts the bytes.\<close>

lemma nocase_eq_example:
  "nocase_eq ''NODULO'' ''nodulo'' \<and>
   \<not> nocase_eq (''N'' @ [CHR 0xD3] @ ''DULO'') (''n'' @ [CHR 0xF3] @ ''dulo'') \<and>
   nocase_eq (''a'' @ [CHR 0x00] @ ''b'') (''A'' @ [CHR 0x00] @ ''c'') \<and>
   nocase_eq (''a'' @ [CHR 0x00, CHR 0xE9]) (''a'' @ [CHR 0x00] @ ''bc'') \<and>
   \<not> nocase_eq (''a'' @ [CHR 0x00] @ ''b'') (''a'' @ [CHR 0x00] @ ''cd'')"
  by (simp add: nocase_eq_def nocase_key_def utf8_length_def ascii_lower_char_def)

section \<open>Properties of the repository\<close>

lemma filter_eq_single:
  "distinct xs \<Longrightarrow> a \<in> set xs \<Longrightarrow> filter (\<lambda>x. x = a) xs = [a]"
  by (induction xs) (auto simp: filter_empty_conv)

lemma fold_max_ge: "(a::int) \<le> fold max xs a \<and> (\<forall>x \<in> set xs. x \<le> fold max xs a)"
proof (induction xs arbitrary: a)
  case Nil
  then show ?case by simp
next
  case (Cons x xs)
  have "max x a \<le> fold max xs (max x a)" using Cons.IH by blast
  then show ?case using Cons.IH [of "max x a"] by auto
qed

lemma next_rowid_fresh: "next_rowid db \<notin> term_id ` set (medical_terms db)"
proof
  assume a: "next_rowid db \<in> term_id ` set (medical_terms db)"
  then have rows: "medical_terms db \<noteq> []" by auto
  from a have "next_rowid db \<in> set (map term_id (medical_terms db))" by simp
  then have "next_rowid db \<le> fold max (map term_id (medical_terms db)) (seq db)"
    using fold_max_ge by blast
  with rows show False by (simp add: next_rowid_def)
qed

lemma upsert_exhausted:
  assumes "connected db" and "rowids_exhausted db"
  shows "addOrUpdateMedicalTerm db heardTerm correctTerm sp mo vars cw = (Inl SqlError, db)"
  using assms by (simp add: addOrUpdateMedicalTerm_def)

lemma sql_plus_1_count: "0 \<le> f \<Longrightarrow> sql_plus_1 f = (if f < 2 ^ 63 then f + 1 else f)"
  by (simp add: sql_plus_1_def)

lemma sql_plus_1_nonneg: "0 \<le> f \<Longrightarrow> 0 \<le> sql_plus_1 f"
  by (simp add: sql_plus_1_def)

lemma upsert_insert:
  assumes "connected db" and "\<not> rowids_exhausted db"
    and "\<forall>row \<in> set (medical_terms db).
           \<not> nocase_eq (heard_term row) (trim (toLowerCase heardTerm))"
  shows "addOrUpdateMedicalTerm db heardTerm correctTerm sp mo vars cw =
     (Inr (next_rowid db),
      db\<lparr>medical_terms := medical_terms db @
             [\<lparr>term_id = next_rowid db, heard_term = trim (toLowerCase heardTerm),
               correct_term = trim correctTerm, specialty = sp, modality = mo,
               frequency = Some 1, variants = stringify vars, context_words = stringify cw\<rparr>],
          seq := next_rowid db\<rparr>)"
proof -
  have "filter (\<lambda>row. nocase_eq (heard_term row) (trim (toLowerCase heardTerm)))
          (medical_terms db) = []"
    using assms(3) by (auto simp: filter_empty_conv)
  with assms(1,2) show ?thesis
    by (simp add: addOrUpdateMedicalTerm_def)
qed

lemma upsert_update:
  assumes "connected db" and "\<not> rowids_exhausted db" and "heard_unique db"
    and "hit \<in> set (medical_terms db)"
    and "nocase_eq (heard_term hit) (trim (toLowerCase heardTerm))"
  shows "addOrUpdateMedicalTerm db heardTerm correctTerm sp mo vars cw =
     (Inr (term_id hit),
      db\<lparr>medical_terms :=
           map (\<lambda>row. if row = hit
                      then do_update hit (trim correctTerm) sp mo (stringify vars) (stringify cw)
                      else row)
               (medical_terms db),
         seq := next_rowid db\<rparr>)"
proof -
  let ?P = "\<lambda>row. nocase_eq (heard_term row) (trim (toLowerCase heardTerm))"
  let ?new = "do_update hit (trim correctTerm) sp mo (stringify vars) (stringify cw)"
  have inj: "inj_on (\<lambda>row. nocase_key (heard_term row)) (set (medical_terms db))"
    using assms(3) by (simp add: heard_unique_def distinct_map)
  have same: "?P row \<longleftrightarrow> row = hit" if "row \<in> set (medical_terms db)" for row
    using inj_on_eq_iff[OF inj that assms(4)] assms(5) by (auto simp: nocase_eq_def)
  have "filter ?P (medical_terms db) = filter (\<lambda>row. row = hit) (medical_terms db)"
    using same by (intro filter_cong) auto
  moreover have "distinct (medical_terms db)"
    using assms(3) by (simp add: heard_unique_def distinct_map)
  ultimately have f: "filter ?P (medical_terms db) = [hit]"
    using assms(4) by (simp add: filter_eq_single)
  have m: "map (\<lambda>row. if ?P row
                       then do_update row (trim correctTerm) sp mo (stringify vars) (stringify cw)
                       else row) (medical_terms db)
         = map (\<lambda>row. if row = hit then ?new else row) (medical_terms db)"
    using same by (intro map_cong) auto
  show ?thesis
    using assms(1,2) f m by (simp add: addOrUpdateMedicalTerm_def)
qed

lemma upsert_keeps_unique:
  assumes "heard_unique db"
  shows "heard_unique (snd (addOrUpdateMedicalTerm db heardTerm correctTerm sp mo vars cw))"
proof (cases "connected db \<and> \<not> rowids_exhausted db")
  case False
  then show ?thesis using assms by (auto simp: addOrUpdateMedicalTerm_def Let_def)
next
  case True
  let ?P = "\<lambda>row. nocase_eq (heard_term row) (trim (toLowerCase heardTerm))"
  show ?thesis
  proof (cases "filter ?P (medical_terms db)")
    case Nil
    then have new: "\<forall>row \<in> set (medical_terms db).
        nocase_key (heard_term row) \<noteq> nocase_key (trim (toLowerCase heardTerm))"
      by (auto simp: filter_empty_conv nocase_eq_def)
    show ?thesis
      using True Nil assms new
      by (auto simp: addOrUpdateMedicalTerm_def heard_unique_def)
  next
    case (Cons hit rest)
    have keys: "map ((\<lambda>row. nocase_key (heard_term row)) \<circ>
            (\<lambda>row. if ?P row
                   then do_update row (trim correctTerm) sp mo (stringify vars) (stringify cw)
                   else row))
               (medical_terms db)
          = map (\<lambda>row. nocase_key (heard_term row)) (medical_terms db)"
      by (simp add: do_update_def comp_def if_distrib [of heard_term] cong: if_cong)
    show ?thesis
      using True Cons assms by (simp add: addOrUpdateMedicalTerm_def heard_unique_def keys)
  qed
qed

lemma upsert_keeps_nonneg:
  assumes "frequency_nonneg db"
  shows "frequency_nonneg (snd (addOrUpdateMedicalTerm db heardTerm correctTerm sp mo vars cw))"
  using assms
  by (auto simp: addOrUpdateMedicalTerm_def frequency_nonneg_def list_all_iff do_update_def Let_def
           sql_plus_1_nonneg split: list.splits option.splits)

lemma increment_keeps:
  assumes "heard_unique db" and "frequency_nonneg db"
  shows "heard_unique (snd (incrementTermFrequency db i)) \<and>
         frequency_nonneg (snd (incrementTermFrequency db i))"
proof -
  have keys: "map ((\<lambda>row. nocase_key (heard_term row)) \<circ>
          (\<lambda>row. if term_id row = i
                 then row\<lparr>frequency := map_option sql_plus_1 (frequency row)\<rparr> else row))
             (medical_terms db)
        = map (\<lambda>row. nocase_key (heard_term row)) (medical_terms db)"
    by (simp add: comp_def if_distrib [of heard_term] cong: if_cong)
  show ?thesis
    using assms
    by (auto simp: incrementTermFrequency_def heard_unique_def frequency_nonneg_def list_all_iff keys
             sql_plus_1_nonneg split: option.splits)
qed

lemma empty_table_invariants:
  "heard_unique \<lparr>connected = c, medical_terms = [], seq = 0\<rparr> \<and>
   frequency_nonneg \<lparr>connected = c, medical_terms = [], seq = 0\<rparr>"
  by (simp add: heard_unique_def frequency_nonneg_def)

text \<open>
  Claim C7. \<open>addOrUpdateMedicalTerm\<close> is an upsert keyed on the heard term without regard to
  case: the key is the argument lower-cased and trimmed, and a row holds it when its heard
  term equals the key under the \<open>NOCASE\<close> collation of the column. On a connected table
  whose heard terms are unique under \<open>NOCASE\<close> and whose frequencies are non-negative, and
  while a rowid is left to allocate: a key that no row holds is appended as a new row with a
  fresh id and frequency 1; a key that a row holds leaves every other row as it was, adds 1
  to that row's frequency (every frequency below \<open>2^63\<close>, which covers every 64-bit
  INTEGER; the REAL \<open>2^63\<close> that the column turns into beyond that stays) and overwrites
  its \<open>correct_term\<close>, \<open>specialty\<close>, \<open>modality\<close>, \<open>variants\<close> and \<open>context_words\<close>,
  returning that row's id; the rowid sequence advances in both cases. Once the rowids are
  used up the statement fails and the table is as it was. In every case the heard terms
  stay unique and the frequencies non-negative.
\<close>

theorem addOrUpdateMedicalTerm_upsert:
  assumes "connected db" and "heard_unique db" and "frequency_nonneg db"
  shows "(rowids_exhausted db \<longrightarrow>
            addOrUpdateMedicalTerm db heardTerm correctTerm sp mo vars cw = (Inl SqlError, db)) \<and>
         (\<not> rowids_exhausted db \<longrightarrow>
            (\<forall>row \<in> set (medical_terms db).
                \<not> nocase_eq (heard_term row) (trim (toLowerCase heardTerm))) \<longrightarrow>
            next_rowid db \<notin> term_id ` set (medical_terms db) \<and>
            addOrUpdateMedicalTerm db heardTerm correctTerm sp mo vars cw =
              (Inr (next_rowid db),
               db\<lparr>medical_terms := medical_terms db @
                     [\<lparr>term_id = next_rowid db, heard_term = trim (toLowerCase heardTerm),
                       correct_term = trim correctTerm, specialty = sp, modality = mo,
                       frequency = Some 1, variants = stringify vars,
                       context_words = stringify cw\<rparr>],
                   seq := next_rowid db\<rparr>)) \<and>
         (\<not> rowids_exhausted db \<longrightarrow>
            (\<forall>hit \<in> set (medical_terms db).
                nocase_eq (heard_term hit) (trim (toLowerCase heardTerm)) \<longrightarrow>
                (\<exists>f. frequency hit = Some f \<and> 0 \<le> f \<and>
                   addOrUpdateMedicalTerm db heardTerm correctTerm sp mo vars cw =
                     (Inr (term_id hit),
                      db\<lparr>medical_terms :=
                           map (\<lambda>row. if row = hit
                                      then hit\<lparr>correct_term := trim correctTerm,
                                               specialty := sp, modality := mo,
                                               frequency := Some (if f < 2 ^ 63 then f + 1 else f),
                                               variants := stringify vars,
                                               context_words := stringify cw\<rparr>
                                      else row)
                               (medical_terms db),
                         seq := next_rowid db\<rparr>)))) \<and>
         heard_unique (snd (addOrUpdateMedicalTerm db heardTerm correctTerm sp mo vars cw)) \<and>
         frequency_nonneg (snd (addOrUpdateMedicalTerm db heardTerm correctTerm sp mo vars cw))"
proof (intro conjI impI ballI)
  assume "rowids_exhausted db"
  with assms(1)
  show "addOrUpdateMedicalTerm db heardTerm correctTerm sp mo vars cw = (Inl SqlError, db)"
    by (rule upsert_exhausted)
next
  show "next_rowid db \<notin> term_id ` set (medical_terms db)"
    by (rule next_rowid_fresh)
next
  assume "\<not> rowids_exhausted db"
    and "\<forall>row \<in> set (medical_terms db).
            \<not> nocase_eq (heard_term row) (trim (toLowerCase heardTerm))"
  with assms(1)
  show "addOrUpdateMedicalTerm db heardTerm correctTerm sp mo vars cw =
            (Inr (next_rowid db),
             db\<lparr>medical_terms := medical_terms db @
                   [\<lparr>term_id = next_rowid db, heard_term = trim (toLowerCase heardTerm),
                     correct_term = trim correctTerm, specialty = sp, modality = mo,
                     frequency = Some 1, variants = stringify vars,
                     context_words = stringify cw\<rparr>],
                 seq := next_rowid db\<rparr>)"
    by (rule upsert_insert)
next
  fix hit
  assume room: "\<not> rowids_exhausted db"
    and hit: "hit \<in> set (medical_terms db)"
    and same: "nocase_eq (heard_term hit) (trim (toLowerCase heardTerm))"
  from hit assms(3) obtain f where f: "frequency hit = Some f" "0 \<le> f"
    by (auto simp: frequency_nonneg_def list_all_iff split: option.splits)
  have "do_update hit (trim correctTerm) sp mo (stringify vars) (stringify cw) =
        hit\<lparr>correct_term := trim correctTerm, specialty := sp, modality := mo,
            frequency := Some (if f < 2 ^ 63 then f + 1 else f), variants := stringify vars,
            context_words := stringify cw\<rparr>"
    using f by (simp add: do_update_def sql_plus_1_count)
  with upsert_update [OF assms(1) room assms(2) hit same, of correctTerm sp mo vars cw] f
  show "\<exists>f. frequency hit = Some f \<and> 0 \<le> f \<and>
                addOrUpdateMedicalTerm db heardTerm correctTerm sp mo vars cw =
                  (Inr (term_id hit),
                   db\<lparr>medical_terms :=
                        map (\<lambda>row. if row = hit
                                   then hit\<lparr>correct_term := trim correctTerm,
                                            specialty := sp, modality := mo,
                                            frequency := Some (if f < 2 ^ 63 then f + 1 else f),
                                            variants := stringify vars,
                                            context_words := stringify cw\<rparr>
                                   else row)
                            (medical_terms db),
                      seq := next_rowid db\<rparr>)"
    by auto
next
  show "heard_unique (snd (addOrUpdateMedicalTerm db heardTerm correctTerm sp mo vars cw))"
    using assms(2) by (rule upsert_keeps_unique)
next
  show "frequency_nonneg (snd (addOrUpdateMedicalTerm db heardTerm correctTerm sp mo vars cw))"
    using assms(3) by (rule upsert_keeps_nonneg)
qed

text \<open>The heard term of the table is \<open>n\<close>, U+00F3, \<open>dulo\<close>; the argument is the same word in
  capitals, with U+00D3, between spaces. The row is updated and the sequence advances to
  2, so the insert that follows receives the id 3. With the sequence at \<open>2^63 - 1\<close> the
  statement fails.\<close>

theorem addOrUpdateMedicalTerm_upsert_witness:
  "addOrUpdateMedicalTerm db_accent ('' N'' @ [CHR 0xD3] @ ''DULO '') ''Nodule '' None
       (Some ''CT'') [''nodulos''] [] =
     (Inr 1,
      \<lparr>connected = True,
       medical_terms =
         [\<lparr>term_id = 1, heard_term = ''n'' @ [CHR 0xF3] @ ''dulo'', correct_term = ''Nodule'',
           specialty = None, modality = Some ''CT'', frequency = Some 4,
           variants = JsonArray [JsString ''nodulos''], context_words = JsonArray []\<rparr>],
       seq = 2\<rparr>) \<and>
   addOrUpdateMedicalTerm
       (snd (addOrUpdateMedicalTerm db_accent ('' N'' @ [CHR 0xD3] @ ''DULO '') ''Nodule '' None
               (Some ''CT'') [''nodulos''] []))
       ''Quiste'' ''quiste'' None None [] [] =
     (Inr 3,
      \<lparr>connected = True,
       medical_terms =
         [\<lparr>term_id = 1, heard_term = ''n'' @ [CHR 0xF3] @ ''dulo'', correct_term = ''Nodule'',
           specialty = None, modality = Some ''CT'', frequency = Some 4,
           variants = JsonArray [JsString ''nodulos''], context_words = JsonArray []\<rparr>,
          \<lparr>term_id = 3, heard_term = ''quiste'', correct_term = ''quiste'',
           specialty = None, modality = None, frequency = Some 1,
           variants = JsonArray [], context_words = JsonArray []\<rparr>],
       seq = 3\<rparr>) \<and>
   addOrUpdateMedicalTerm (db_accent\<lparr>seq := 2 ^ 63 - 1\<rparr>) ''Quiste'' ''quiste'' None None [] [] =
     (Inl SqlError, db_accent\<lparr>seq := 2 ^ 63 - 1\<rparr>)"
proof -
  let ?db1 = "\<lparr>connected = True,
       medical_terms =
         [\<lparr>term_id = 1, heard_term = ''n'' @ [CHR 0xF3] @ ''dulo'', correct_term = ''Nodule'',
           specialty = None, modality = Some ''CT'', frequency = Some 4,
           variants = JsonArray [JsString ''nodulos''], context_words = JsonArray []\<rparr>],
       seq = 2\<rparr>"
  have pre: "connected db_accent" "heard_unique db_accent" "frequency_nonneg db_accent"
    by (simp_all add: db_accent_def row_nodulo_def heard_unique_def frequency_nonneg_def)
  have first: "addOrUpdateMedicalTerm db_accent ('' N'' @ [CHR 0xD3] @ ''DULO '') ''Nodule '' None
       (Some ''CT'') [''nodulos''] [] = (Inr 1, ?db1)"
    using addOrUpdateMedicalTerm_upsert [OF pre, of "'' N'' @ [CHR 0xD3] @ ''DULO ''" "''Nodule ''"
        None "Some ''CT''" "[''nodulos'']" "[]"]
    by (simp add: db_accent_def row_nodulo_def toLowerCase_def lower_char_def nocase_eq_def
          nocase_key_def utf8_length_def ascii_lower_char_def trim_def is_space_def
          next_rowid_def rowids_exhausted_def max_rowid_def stringify_def)
  have pre1: "connected ?db1" "heard_unique ?db1" "frequency_nonneg ?db1"
    by (simp_all add: heard_unique_def frequency_nonneg_def)
  have second: "addOrUpdateMedicalTerm ?db1 ''Quiste'' ''quiste'' None None [] [] =
     (Inr 3,
      \<lparr>connected = True,
       medical_terms =
         [\<lparr>term_id = 1, heard_term = ''n'' @ [CHR 0xF3] @ ''dulo'', correct_term = ''Nodule'',
           specialty = None, modality = Some ''CT'', frequency = Some 4,
           variants = JsonArray [JsString ''nodulos''], context_words = JsonArray []\<rparr>,
          \<lparr>term_id = 3, heard_term = ''quiste'', correct_term = ''quiste'',
           specialty = None, modality = None, frequency = Some 1,
           variants = JsonArray [], context_words = JsonArray []\<rparr>],
       seq = 3\<rparr>)"
    using addOrUpdateMedicalTerm_upsert [OF pre1, of "''Quiste''" "''quiste''" None None "[]" "[]"]
    by (simp add: toLowerCase_def lower_char_def nocase_eq_def nocase_key_def utf8_length_def
          ascii_lower_char_def trim_def is_space_def next_rowid_def rowids_exhausted_def
          max_rowid_def stringify_def)
  have pre2: "connected (db_accent\<lparr>seq := 2 ^ 63 - 1\<rparr>)"
    "heard_unique (db_accent\<lparr>seq := 2 ^ 63 - 1\<rparr>)"
    "frequency_nonneg (db_accent\<lparr>seq := 2 ^ 63 - 1\<rparr>)"
    by (simp_all add: db_accent_def row_nodulo_def heard_unique_def frequency_nonneg_def)
  have third: "addOrUpdateMedicalTerm (db_accent\<lparr>seq := 2 ^ 63 - 1\<rparr>) ''Quiste'' ''quiste''
       None None [] [] = (Inl SqlError, db_accent\<lparr>seq := 2 ^ 63 - 1\<rparr>)"
    using addOrUpdateMedicalTerm_upsert [OF pre2, of "''Quiste''" "''quiste''" None None "[]" "[]"]
    by (simp add: rowids_exhausted_def max_rowid_def)
  show ?thesis
    unfolding first using second third by simp
qed

text \<open>
  Claim C10. On a connected repository, \<open>incrementTermFrequency\<close> with an id that no row
  has returns normally and leaves the repository as it was, and \<open>getTermFrequency\<close> for
  such an id returns 0.
\<close>

theorem unknown_term_id_is_harmless:
  assumes "connected db" and "termId \<notin> term_id ` set (medical_terms db)"
  shows "incrementTermFrequency db termId = (Inr (), db) \<and> getTermFrequency db termId = Inr 0"
proof
  have "map (\<lambda>row. if term_id row = termId
                     then row\<lparr>frequency := map_option sql_plus_1 (frequency row)\<rparr>
                     else row) (medical_terms db) = medical_terms db"
    using assms(2) by (intro map_idI) auto
  with assms(1) show "incrementTermFrequency db termId = (Inr (), db)"
    by (simp add: incrementTermFrequency_def)
next
  have "filter (\<lambda>row. term_id row = termId) (medical_terms db) = []"
    using assms(2) by (auto simp: filter_empty_conv)
  with assms(1) show "getTermFrequency db termId = Inr 0"
    by (simp add: getTermFrequency_def)
qed

theorem unknown_term_id_is_harmless_witness:
  "incrementTermFrequency db_two 7 = (Inr (), db_two) \<and> getTermFrequency db_two 7 = Inr 0"
proof -
  have "connected db_two" and "7 \<notin> term_id ` set (medical_terms db_two)"
    by (simp_all add: db_two_def row_nodulo_def row_nodular_def)
  then show ?thesis by (rule unknown_term_id_is_harmless)
qed

lemma set_sql_limit: "set (sql_limit n rows) \<subseteq> set rows"
  by (auto simp: sql_limit_def dest: in_set_takeD)

lemma set_order_by_frequency_desc: "set (order_by_frequency_desc rows) = set rows"
  by (simp add: order_by_frequency_desc_def)

text \<open>
  Claim C8, as amended. \<open>findSimilarTerms\<close> filters on a scoping tag only when the request
  carries one: for a non-empty requested specialty, every row it returns has a null
  specialty or the requested one, and likewise for the modality; a null or empty requested
  tag puts no condition on that tag. Without a row limit the rows returned are exactly the
  rows of the table that match the prefix pattern and these conditions. Hence a row scoped
  to one specialty is never returned for a different non-empty requested specialty, and a
  row with a null specialty passes the specialty condition of every request.
\<close>

theorem findSimilarTerms_filters:
  assumes "connected db"
  shows "\<exists>found. findSimilarTerms db heardTerm sp mo limit = Inr found \<and>
     (\<forall>row \<in> set found. row \<in> set (medical_terms db) \<and>
        (truthy sp \<longrightarrow> specialty row = None \<or> specialty row = sp) \<and>
        (truthy mo \<longrightarrow> modality row = None \<or> modality row = mo)) \<and>
     (limit < 0 \<longrightarrow>
        (\<forall>row \<in> set (medical_terms db).
           row \<in> set found \<longleftrightarrow>
             sql_like (trim (toLowerCase heardTerm) @ ''%'') (heard_term row) \<and>
             (truthy sp \<longrightarrow> specialty row = None \<or> specialty row = sp) \<and>
             (truthy mo \<longrightarrow> modality row = None \<or> modality row = mo)))"
proof -
  let ?pass = "\<lambda>row. sql_like (trim (toLowerCase heardTerm) @ ''%'') (heard_term row) \<and>
                      where_filters row sp mo"
  let ?sorted = "order_by_frequency_desc
                   (sort_key (\<lambda>row. length (heard_term row)) (filter ?pass (medical_terms db)))"
  have res: "findSimilarTerms db heardTerm sp mo limit = Inr (sql_limit limit ?sorted)"
    using assms by (simp add: findSimilarTerms_def)
  have all: "set ?sorted = {row \<in> set (medical_terms db). ?pass row}"
    by (simp add: set_order_by_frequency_desc)
  have sub: "set (sql_limit limit ?sorted) \<subseteq> {row \<in> set (medical_terms db). ?pass row}"
    using set_sql_limit [of limit ?sorted] all by simp
  have wf: "where_filters row sp mo \<longleftrightarrow>
        (truthy sp \<longrightarrow> specialty row = None \<or> specialty row = sp) \<and>
        (truthy mo \<longrightarrow> modality row = None \<or> modality row = mo)" for row
    by (auto simp: where_filters_def)
  have neg: "limit < 0 \<Longrightarrow> sql_limit limit ?sorted = ?sorted"
    by (simp add: sql_limit_def)
  show ?thesis
    unfolding res using sub all neg wf by auto
qed

theorem findSimilarTerms_filters_witness:
  "\<exists>found. findSimilarTerms db_two ''NOD'' (Some ''neuro'') None (- 1) = Inr found \<and>
     row_nodulo \<notin> set found \<and> row_nodular \<in> set found"
proof -
  have c: "connected db_two" by (simp add: db_two_def)
  show ?thesis
    using findSimilarTerms_filters [OF c, of "''NOD''" "Some ''neuro''" None "- 1"]
    by (auto simp add: db_two_def row_nodulo_def row_nodular_def truthy_def toLowerCase_def
          trim_def is_space_def lower_char_def ascii_lower_char_def)
qed

text \<open>
  Claim C8 as stated fails: a row scoped to the specialty \<open>cardio\<close> is returned for a
  request that names no specialty, although its specialty is neither null nor equal to the
  requested one.
\<close>

theorem findSimilarTerms_null_request_counterexample:
  "findSimilarTerms db_one ''nod'' None None 5 = Inr [row_nodulo] \<and>
   \<not> matchesFilters_spec row_nodulo None None"
  by (simp add: findSimilarTerms_def db_one_def row_nodulo_def matchesFilters_spec_def
        where_filters_def truthy_def sql_limit_def order_by_frequency_desc_def
        toLowerCase_def trim_def is_space_def lower_char_def ascii_lower_char_def)

section \<open>Properties of the indices\<close>

lemma reset_index_term: "reset_indices (snd (index_term t s)) = reset_indices s"
  by (simp add: index_term_def reset_indices_def Let_def split: sum.splits option.splits prod.splits)

lemma reset_index_terms: "reset_indices (snd (index_terms ts s)) = reset_indices s"
proof (induction ts arbitrary: s)
  case Nil
  then show ?case by simp
next
  case (Cons t ts)
  show ?case
  proof (cases "index_term t s")
    case (Pair out s1)
    then have "reset_indices s1 = reset_indices s" using reset_index_term [of t s] by simp
    with Pair Cons.IH [of s1] show ?thesis by (cases out) simp_all
  qed
qed

lemma reset_indices_idem: "reset_indices (reset_indices s) = reset_indices s"
  by (simp add: reset_indices_def)

lemma reset_rebuild: "reset_indices (snd (rebuildTermIndices s)) = reset_indices s"
  by (simp add: rebuildTermIndices_def reset_index_terms reset_indices_idem)

lemma cachedTerms_reset: "cachedTerms (reset_indices s) = cachedTerms s"
  by (simp add: reset_indices_def)

lemma cachedTerms_rebuild: "cachedTerms (snd (rebuildTermIndices s)) = cachedTerms s"
  using reset_rebuild [of s] cachedTerms_reset by metis

lemma rebuild_idem: "rebuildTermIndices (snd (rebuildTermIndices s)) = rebuildTermIndices s"
  by (simp add: rebuildTermIndices_def [of "snd (rebuildTermIndices s)"] cachedTerms_rebuild reset_rebuild)
     (simp add: rebuildTermIndices_def)

















lemma rebuild_outcome:
  assumes "rebuildTermIndices s = (Inr (), s')"
  shows "indices_consistent s'"
  using rebuild_idem [of s] assms by (simp add: indices_consistent_def)


section \<open>Cache reduction\<close>


lemmas engine_eval =
  reduceCacheSize_def new_service_def default_options_def or_default_def
  sort_by_frequency_def frequency_or_0_def slice0_def
  rebuildTermIndices_def reset_indices_def index_term_def Let_def is_frequent_def
  decode_variants_def toLowerCase_def lower_char_def push_bucket_def exact_lookup_def

lemmas rows_eval = row_nodulo_def row_nodular_def row_quiste_def



section \<open>Memory monitor and cache refresh\<close>

lemma half_floor: "\<lfloor>rat_of_int c * (1 / 2)\<rfloor> = c div 2"
proof -
  have "rat_of_int c * (1 / 2) = rat_of_int c / rat_of_int 2" by simp
  then show ?thesis by (simp only: floor_divide_of_int_eq)
qed

lemma half_less: "rat_of_nat n > rat_of_int c * (1 / 2) \<longleftrightarrow> c < 2 * int n"
proof -
  have "rat_of_nat n > rat_of_int c * (1 / 2) \<longleftrightarrow> rat_of_int c < rat_of_int (2 * int n)"
    by (simp add: field_simps)
  then show ?thesis by (simp only: of_int_less_iff)
qed

lemma round_MB_div: "round_MB bytes = (2 * int bytes + 1048576) div 2097152"
proof -
  have "rat_of_nat bytes / 1024 / 1024 + 1 / 2 =
        rat_of_int (2 * int bytes + 1048576) / rat_of_int 2097152"
    by (simp add: field_simps)
  then show ?thesis unfolding round_MB_def by (simp only: floor_divide_of_int_eq)
qed


lemmas service_eval =
  refreshCache_def refreshCache_try_def cache_is_fresh_def flushFrequencyBatch_def
  checkMemoryUsage_def checkMemoryUsage_try_def heapUsagePercentage_def round_MB_div
  update_warning_def clearCache_def DatabaseManager_def getMostFrequentTerms_def
  sql_limit_def order_by_frequency_desc_def

lemma engine_loaded_value:
  "engine_loaded =
     (new_service default_options)
       \<lparr>cachedTerms := [row_nodulo], cacheLastUpdated := 1000000,
        termIndexByLength := [length ''nodulo'' \<mapsto> [row_nodulo]],
        termIndexByFirstChar := [''n'' \<mapsto> [row_nodulo]]\<rparr>"
  by (simp add: engine_loaded_def service_eval engine_eval rows_eval db_one_def mem_low_def)

lemma refresh_bad_value:
  "refreshCache DatabaseManager 2000000 mem_low engine_loaded db_bad =
     (Inr (),
      (new_service default_options)
        \<lparr>cachedTerms := [row_eco, row_masa, row_nodulo], cacheLastUpdated := 2000000,
         termIndexByLength := [length ''eco'' \<mapsto> [row_eco]],
         termIndexByFirstChar := [''e'' \<mapsto> [row_eco]],
         frequentTermsCache := [''eco'' \<mapsto> row_eco]\<rparr>,
      db_bad)"
  by (simp add: engine_loaded_value service_eval engine_eval rows_eval row_eco_def row_masa_def
        db_bad_def mem_low_def)

text \<open>
  Claim C2, evaluated where it fails. The service has loaded a one-row table and its
  indices are in step with its cache. Ten minutes later the table holds a frequent row
  whose \<open>variants\<close> text is not JSON. \<open>refreshCache\<close> returns normally, the cache holds
  the three rows of the table, and the rebuild has stopped at the malformed row: the row
  \<open>masa\<close>, of frequency 7, is in the cache and in no index, and the indices are not those
  of a rebuild from the cache.
\<close>

theorem refreshCache_leaves_indices_behind:
  "indices_consistent engine_loaded \<and>
   fst (refreshCache DatabaseManager 2000000 mem_low engine_loaded db_bad) = Inr () \<and>
   cachedTerms (fst (snd (refreshCache DatabaseManager 2000000 mem_low engine_loaded db_bad))) =
     [row_eco, row_masa, row_nodulo] \<and>
   termIndexByLength (fst (snd (refreshCache DatabaseManager 2000000 mem_low engine_loaded db_bad)))
     (length (toLowerCase (heard_term row_masa))) = None \<and>
   exact_lookup (fst (snd (refreshCache DatabaseManager 2000000 mem_low engine_loaded db_bad)))
     (heard_term row_masa) = None \<and>
   \<not> indices_consistent
       (fst (snd (refreshCache DatabaseManager 2000000 mem_low engine_loaded db_bad)))"
proof -
  have 1: "indices_consistent engine_loaded"
    by (simp add: indices_consistent_def engine_loaded_value engine_eval rows_eval)
  have 2: "\<not> indices_consistent
       (fst (snd (refreshCache DatabaseManager 2000000 mem_low engine_loaded db_bad)))"
    by (simp add: refresh_bad_value indices_consistent_def engine_eval rows_eval row_eco_def
          row_masa_def)
  show ?thesis
    using 1 2
    by (simp add: refresh_bad_value exact_lookup_def toLowerCase_def lower_char_def rows_eval
          row_eco_def row_masa_def)
qed

lemma cachedTerms_flush: "cachedTerms (fst (snd (flushFrequencyBatch api s r))) = cachedTerms s"
  by (simp add: flushFrequencyBatch_def split: prod.splits sum.splits)

lemma checkMemoryUsage_try_int:
  "checkMemoryUsage_try api m s r =
     (if 85 / 100 < heapUsagePercentage m \<and> cacheLimit s < 2 * int (length (cachedTerms s))
      then (case reduceCacheSize (cacheLimit s div 2) s of
              (Inl e, s1) \<Rightarrow> (Inl e, s1, r)
            | (Inr u, s1) \<Rightarrow>
                (case flushFrequencyBatch api s1 r of (outcome, s2, r2) \<Rightarrow> (Inr (), s2, r2)))
      else if round_MB (rss m) > 500 then (Inr (), clearCache s, r)
      else (Inr (), s, r))"
  by (simp only: checkMemoryUsage_try_def half_floor half_less)

text \<open>
  Claim C4, as amended. In one tick of the memory monitor the two triggers are alternatives.
  When the ratio of used to total heap exceeds 0.85 and the cache holds more than half of
  \<open>cacheLimit\<close> terms, the cache is reduced to the \<open>cacheLimit div 2\<close> most frequent
  terms and, when the reduction has run to its end, the frequency batch is flushed; the
  resident set is not looked at in that tick. Only when that condition does not hold and
  the resident set, rounded to whole megabytes, exceeds 500 is the cache cleared. Otherwise
  nothing changes.
\<close>

theorem checkMemoryUsage_triggers:
  "(85 / 100 < heapUsagePercentage m \<and> cacheLimit s < 2 * int (length (cachedTerms s)) \<longrightarrow>
      (\<exists>outcome s1. reduceCacheSize (cacheLimit s div 2) s = (outcome, s1) \<and>
         checkMemoryUsage api m s r =
           (case outcome of Inl e \<Rightarrow> (s1, r) | Inr u \<Rightarrow> snd (flushFrequencyBatch api s1 r)) \<and>
         (0 \<le> cacheLimit s \<longrightarrow>
            cachedTerms (fst (checkMemoryUsage api m s r)) =
              take (nat (cacheLimit s div 2)) (sort_by_frequency (cachedTerms s))))) \<and>
   (\<not> (85 / 100 < heapUsagePercentage m \<and> cacheLimit s < 2 * int (length (cachedTerms s))) \<and>
    500 < round_MB (rss m) \<longrightarrow>
      checkMemoryUsage api m s r = (clearCache s, r) \<and> cachedTerms (clearCache s) = []) \<and>
   (\<not> (85 / 100 < heapUsagePercentage m \<and> cacheLimit s < 2 * int (length (cachedTerms s))) \<and>
    round_MB (rss m) \<le> 500 \<longrightarrow>
      checkMemoryUsage api m s r = (s, r))"
proof (intro conjI impI)
  assume heap: "85 / 100 < heapUsagePercentage m \<and> cacheLimit s < 2 * int (length (cachedTerms s))"
  obtain outcome s1 where red: "reduceCacheSize (cacheLimit s div 2) s = (outcome, s1)"
    by (cases "reduceCacheSize (cacheLimit s div 2) s")
  have run: "checkMemoryUsage api m s r =
           (case outcome of Inl e \<Rightarrow> (s1, r) | Inr u \<Rightarrow> snd (flushFrequencyBatch api s1 r))"
    using heap red
    by (simp add: checkMemoryUsage_def checkMemoryUsage_try_int split: sum.splits prod.splits)
  have kept: "cachedTerms (fst (checkMemoryUsage api m s r)) =
                take (nat (cacheLimit s div 2)) (sort_by_frequency (cachedTerms s))"
    if nn: "0 \<le> cacheLimit s"
  proof -
    have more: "\<not> int (length (cachedTerms s)) \<le> cacheLimit s div 2"
      using heap nn by linarith
    have "cachedTerms s1 = cachedTerms (s\<lparr>cachedTerms := slice0 (sort_by_frequency (cachedTerms s)) (cacheLimit s div 2)\<rparr>)"
      using red more cachedTerms_rebuild [of "s\<lparr>cachedTerms := slice0 (sort_by_frequency (cachedTerms s)) (cacheLimit s div 2)\<rparr>"]
      by (simp add: reduceCacheSize_def)
    then have s1: "cachedTerms s1 = take (nat (cacheLimit s div 2)) (sort_by_frequency (cachedTerms s))"
      using nn by (simp add: slice0_def)
    show ?thesis
      unfolding run using s1 cachedTerms_flush [of api s1 r] by (cases outcome) simp_all
  qed
  show "\<exists>outcome s1. reduceCacheSize (cacheLimit s div 2) s = (outcome, s1) \<and>
         checkMemoryUsage api m s r =
           (case outcome of Inl e \<Rightarrow> (s1, r) | Inr u \<Rightarrow> snd (flushFrequencyBatch api s1 r)) \<and>
         (0 \<le> cacheLimit s \<longrightarrow>
            cachedTerms (fst (checkMemoryUsage api m s r)) =
              take (nat (cacheLimit s div 2)) (sort_by_frequency (cachedTerms s)))"
    using red run kept by blast
next
  assume "\<not> (85 / 100 < heapUsagePercentage m \<and> cacheLimit s < 2 * int (length (cachedTerms s))) \<and>
    500 < round_MB (rss m)"
  then show "checkMemoryUsage api m s r = (clearCache s, r)"
    by (auto simp add: checkMemoryUsage_def checkMemoryUsage_try_int)
next
  show "cachedTerms (clearCache s) = []"
    by (simp add: clearCache_def reset_indices_def)
next
  assume "\<not> (85 / 100 < heapUsagePercentage m \<and> cacheLimit s < 2 * int (length (cachedTerms s))) \<and>
    round_MB (rss m) \<le> 500"
  then show "checkMemoryUsage api m s r = (s, r)"
    by (auto simp add: checkMemoryUsage_def checkMemoryUsage_try_int)
qed

text \<open>
  Claim C4 as stated fails: with the heap ratio at 0.9, three cached terms against a
  \<open>cacheLimit\<close> of 4, and a resident set of 600 MB, both conditions hold, and the cache is
  reduced to two terms and not cleared.
\<close>

theorem checkMemoryUsage_both_counterexample:
  "85 / 100 < heapUsagePercentage mem_both \<and>
   rat_of_int (cacheLimit engine_small) * (1 / 2) < rat_of_nat (length (cachedTerms engine_small)) \<and>
   500 < round_MB (rss mem_both) \<and>
   cachedTerms (fst (checkMemoryUsage DatabaseManager mem_both engine_small db_two)) =
     [row_nodular, row_nodulo]"
  by (simp add: engine_small_def engine_three_def mem_both_def service_eval engine_eval rows_eval)

theorem checkMemoryUsage_triggers_witness:
  "cachedTerms (fst (checkMemoryUsage DatabaseManager mem_both engine_small db_two)) =
     [row_nodular, row_nodulo] \<and>
   cachedTerms (fst (checkMemoryUsage DatabaseManager (mem_both\<lparr>heapUsed := 1000\<rparr>) engine_small db_two)) = [] \<and>
   checkMemoryUsage DatabaseManager mem_low engine_small db_two = (engine_small, db_two)"
  using checkMemoryUsage_triggers [of mem_both engine_small DatabaseManager db_two]
    checkMemoryUsage_triggers [of "mem_both\<lparr>heapUsed := 1000\<rparr>" engine_small DatabaseManager db_two]
    checkMemoryUsage_triggers [of mem_low engine_small DatabaseManager db_two]
  by (simp add: engine_small_def engine_three_def mem_both_def mem_low_def service_eval
        engine_eval rows_eval)

lemma flush_state:
  assumes "flushFrequencyBatch api s r = (outcome, s1, r1)"
  shows "s1 = (case outcome of Inl e \<Rightarrow> s | Inr u \<Rightarrow> s\<lparr>frequencyUpdateBatch := []\<rparr>)"
  using assms by (auto simp: flushFrequencyBatch_def split: prod.splits sum.splits)

lemma age_reset:
  "cacheLastUpdated (reset_indices s) = cacheLastUpdated s"
  "cacheUpdateInterval (reset_indices s) = cacheUpdateInterval s"
  by (simp_all add: reset_indices_def)

lemma age_rebuild:
  "cacheLastUpdated (snd (rebuildTermIndices s)) = cacheLastUpdated s"
  "cacheUpdateInterval (snd (rebuildTermIndices s)) = cacheUpdateInterval s"
  using reset_rebuild [of s] age_reset by metis+

lemma age_reduce:
  "cacheLastUpdated (snd (reduceCacheSize n s)) = cacheLastUpdated s"
  "cacheUpdateInterval (snd (reduceCacheSize n s)) = cacheUpdateInterval s"
  by (simp_all add: reduceCacheSize_def age_rebuild)

lemma age_flush:
  "cacheLastUpdated (fst (snd (flushFrequencyBatch api s r))) = cacheLastUpdated s"
  "cacheUpdateInterval (fst (snd (flushFrequencyBatch api s r))) = cacheUpdateInterval s"
  by (simp_all add: flushFrequencyBatch_def split: prod.splits sum.splits)

lemma age_checkMemoryUsage:
  "cacheLastUpdated (fst (checkMemoryUsage api m s r)) = cacheLastUpdated s"
  "cacheUpdateInterval (fst (checkMemoryUsage api m s r)) = cacheUpdateInterval s"
proof -
  obtain out s1 where red: "reduceCacheSize \<lfloor>rat_of_int (cacheLimit s) * (1 / 2)\<rfloor> s = (out, s1)"
    by (cases "reduceCacheSize \<lfloor>rat_of_int (cacheLimit s) * (1 / 2)\<rfloor> s")
  have s1: "cacheLastUpdated s1 = cacheLastUpdated s" "cacheUpdateInterval s1 = cacheUpdateInterval s"
    using age_reduce [of "\<lfloor>rat_of_int (cacheLimit s) * (1 / 2)\<rfloor>" s] red by simp_all
  obtain o2 s2 r2 where fl: "flushFrequencyBatch api s1 r = (o2, s2, r2)"
    by (cases "flushFrequencyBatch api s1 r")
  have s2: "cacheLastUpdated s2 = cacheLastUpdated s" "cacheUpdateInterval s2 = cacheUpdateInterval s"
    using age_flush [of api s1 r] fl s1 by simp_all
  show "cacheLastUpdated (fst (checkMemoryUsage api m s r)) = cacheLastUpdated s"
    unfolding checkMemoryUsage_def checkMemoryUsage_try_def
    using red fl s1 s2
    by (cases out) (simp_all add: clearCache_def age_reset)
  show "cacheUpdateInterval (fst (checkMemoryUsage api m s r)) = cacheUpdateInterval s"
    unfolding checkMemoryUsage_def checkMemoryUsage_try_def
    using red fl s1 s2
    by (cases out) (simp_all add: clearCache_def age_reset)
qed

lemma age_update_warning:
  "cacheLastUpdated (update_warning s) = cacheLastUpdated s"
  "cacheUpdateInterval (update_warning s) = cacheUpdateInterval s"
  by (simp_all add: update_warning_def Let_def)

lemma rebuild_cleared:
  "rebuildTermIndices (s\<lparr>cachedTerms := []\<rparr>) = (Inr (), reset_indices (s\<lparr>cachedTerms := []\<rparr>))"
  by (simp add: rebuildTermIndices_def)

text \<open>The state and the outcome of a refresh whose fetch has succeeded: the time stamp is
  the time of the call whatever happens afterwards.\<close>

lemma refresh_after_fetch:
  assumes "\<not> cache_is_fresh s now"
    and "flushFrequencyBatch api s r = (Inr (), s1, r1)"
    and "repo_getMostFrequentTerms api = Some fetch"
    and "fetch r1 (cacheLimit s1) = Inr ts"
  shows "cacheLastUpdated (fst (snd (refreshCache api now m s r))) = now"
proof -
  let ?s2 = "s1\<lparr>cachedTerms := ts, cacheLastUpdated := now\<rparr>"
  obtain out s3 where rb: "rebuildTermIndices ?s2 = (out, s3)"
    by (cases "rebuildTermIndices ?s2")
  have s3: "cacheLastUpdated s3 = now"
    using age_rebuild(1) [of ?s2] rb by simp
  show ?thesis
  proof (cases out)
    case (Inl e)
    show ?thesis
      using assms rb Inl s3
      by (simp add: refreshCache_def refreshCache_try_def rebuild_cleared reset_indices_def)
  next
    case (Inr u)
    have "cacheLastUpdated (fst (checkMemoryUsage api m (update_warning s3) r1)) = now"
      using s3 by (simp add: age_checkMemoryUsage age_update_warning)
    then show ?thesis
      using assms rb Inr
      by (simp add: refreshCache_def refreshCache_try_def split: prod.splits)
  qed
qed

lemma refresh_stamp_cases:
  "cacheLastUpdated (fst (snd (refreshCache api now m s r))) = cacheLastUpdated s \<or>
   (\<exists>fetch s1 r1 ts. \<not> cache_is_fresh s now \<and>
      flushFrequencyBatch api s r = (Inr (), s1, r1) \<and>
      repo_getMostFrequentTerms api = Some fetch \<and>
      fetch r1 (cacheLimit s1) = Inr ts \<and>
      cacheLastUpdated (fst (snd (refreshCache api now m s r))) = now)"
proof (cases "cache_is_fresh s now")
  case True
  then show ?thesis by (simp add: refreshCache_def)
next
  case False
  obtain o1 s1 r1 where fl: "flushFrequencyBatch api s r = (o1, s1, r1)"
    by (cases "flushFrequencyBatch api s r") auto
  have s1: "cacheLastUpdated s1 = cacheLastUpdated s"
    using age_flush(1) [of api s r] fl by simp
  show ?thesis
  proof (cases o1)
    case (Inl e)
    then show ?thesis
      using False fl s1
      by (simp add: refreshCache_def refreshCache_try_def rebuild_cleared reset_indices_def)
  next
    case (Inr u)
    show ?thesis
    proof (cases "repo_getMostFrequentTerms api")
      case None
      then show ?thesis
        using False fl Inr s1 by (simp add: refreshCache_def refreshCache_try_def)
    next
      case (Some fetch)
      show ?thesis
      proof (cases "fetch r1 (cacheLimit s1)")
        case (Inl e)
        then show ?thesis
          using False fl \<open>o1 = Inr u\<close> Some s1
          by (simp add: refreshCache_def refreshCache_try_def rebuild_cleared reset_indices_def)
      next
        case (Inr ts)
        from fl \<open>o1 = Inr u\<close> have "flushFrequencyBatch api s r = (Inr (), s1, r1)" by simp
        from refresh_after_fetch [OF False this Some Inr, of m] False this Some Inr
        show ?thesis by blast
      qed
    qed
  qed
qed

text \<open>
  Claim C9. When \<open>refreshCache\<close> is due, the pending batch has been flushed and the
  repository fetch fails, the call returns normally and leaves \<open>cacheLastUpdated\<close> as it
  was; at any later time the guard of \<open>refreshCache\<close> does not find the cache fresh, and
  a call whose flush and fetch succeed stamps the cache with the time of that call. In any
  call, \<open>cacheLastUpdated\<close> changes only when the fetch has succeeded, and then to the time
  of the call.
\<close>

theorem failed_fetch_keeps_cache_age:
  "(\<forall>s1 r1 fetch e.
      \<not> cache_is_fresh s now \<and> flushFrequencyBatch api s r = (Inr (), s1, r1) \<and>
      repo_getMostFrequentTerms api = Some fetch \<and> fetch r1 (cacheLimit s1) = Inl e \<longrightarrow>
      (\<exists>s'. refreshCache api now m s r = (Inr (), s', r1) \<and>
          cacheLastUpdated s' = cacheLastUpdated s \<and>
          (\<forall>later. now \<le> later \<longrightarrow> \<not> cache_is_fresh s' later) \<and>
          (\<forall>later m' r' s2 r2 ts.
              now \<le> later \<and> flushFrequencyBatch api s' r' = (Inr (), s2, r2) \<and>
              fetch r2 (cacheLimit s2) = Inr ts \<longrightarrow>
              cacheLastUpdated (fst (snd (refreshCache api later m' s' r'))) = later))) \<and>
   (cacheLastUpdated (fst (snd (refreshCache api now m s r))) \<noteq> cacheLastUpdated s \<longrightarrow>
      (\<exists>fetch s1 r1 ts. \<not> cache_is_fresh s now \<and>
         flushFrequencyBatch api s r = (Inr (), s1, r1) \<and>
         repo_getMostFrequentTerms api = Some fetch \<and>
         fetch r1 (cacheLimit s1) = Inr ts \<and>
         cacheLastUpdated (fst (snd (refreshCache api now m s r))) = now))"
proof (intro conjI allI impI)
  fix s1 r1 fetch e
  assume a: "\<not> cache_is_fresh s now \<and> flushFrequencyBatch api s r = (Inr (), s1, r1) \<and>
      repo_getMostFrequentTerms api = Some fetch \<and> fetch r1 (cacheLimit s1) = Inl e"
  then have stale: "\<not> cache_is_fresh s now"
    and fl: "flushFrequencyBatch api s r = (Inr (), s1, r1)"
    and get: "repo_getMostFrequentTerms api = Some fetch"
    and fail: "fetch r1 (cacheLimit s1) = Inl e" by simp_all
  have s1: "s1 = s\<lparr>frequencyUpdateBatch := []\<rparr>"
    using flush_state [OF fl] by simp
  define s' where "s' = (if length (cachedTerms s) = 0 then reset_indices (s1\<lparr>cachedTerms := []\<rparr>) else s1)"
  have run: "refreshCache api now m s r = (Inr (), s', r1)"
    using stale fl get fail
    by (simp add: refreshCache_def refreshCache_try_def s'_def rebuild_cleared)
  have age: "cacheLastUpdated s' = cacheLastUpdated s" "cacheUpdateInterval s' = cacheUpdateInterval s"
    by (simp_all add: s'_def s1 reset_indices_def)
  have terms: "cachedTerms s' = cachedTerms s"
    by (simp add: s'_def s1 reset_indices_def)
  have again: "\<not> cache_is_fresh s' later" if "now \<le> later" for later
    using stale that by (auto simp: cache_is_fresh_def age terms)
  have next_ok: "cacheLastUpdated (fst (snd (refreshCache api later m' s' r'))) = later"
    if "now \<le> later \<and> flushFrequencyBatch api s' r' = (Inr (), s2, r2) \<and>
        fetch r2 (cacheLimit s2) = Inr ts" for later m' r' s2 r2 ts
  proof -
    from that have l: "now \<le> later" and f2: "flushFrequencyBatch api s' r' = (Inr (), s2, r2)"
      and ok: "fetch r2 (cacheLimit s2) = Inr ts" by simp_all
    show ?thesis using refresh_after_fetch [OF again [OF l] f2 get ok] .
  qed
  show "\<exists>s'. refreshCache api now m s r = (Inr (), s', r1) \<and>
          cacheLastUpdated s' = cacheLastUpdated s \<and>
          (\<forall>later. now \<le> later \<longrightarrow> \<not> cache_is_fresh s' later) \<and>
          (\<forall>later m' r' s2 r2 ts.
              now \<le> later \<and> flushFrequencyBatch api s' r' = (Inr (), s2, r2) \<and>
              fetch r2 (cacheLimit s2) = Inr ts \<longrightarrow>
              cacheLastUpdated (fst (snd (refreshCache api later m' s' r'))) = later)"
    using run age(1) again next_ok by blast
next
  assume "cacheLastUpdated (fst (snd (refreshCache api now m s r))) \<noteq> cacheLastUpdated s"
  with refresh_stamp_cases [of api now m s r]
  show "\<exists>fetch s1 r1 ts. \<not> cache_is_fresh s now \<and>
         flushFrequencyBatch api s r = (Inr (), s1, r1) \<and>
         repo_getMostFrequentTerms api = Some fetch \<and>
         fetch r1 (cacheLimit s1) = Inr ts \<and>
         cacheLastUpdated (fst (snd (refreshCache api now m s r))) = now"
    by blast
qed

theorem failed_fetch_keeps_cache_age_witness:
  "refreshCache DatabaseManager 2000000 mem_low engine_loaded db_down =
     (Inr (), engine_loaded, db_down) \<and>
   cacheLastUpdated engine_loaded = 1000000 \<and>
   \<not> cache_is_fresh engine_loaded 2000001 \<and>
   cacheLastUpdated (fst (snd (refreshCache DatabaseManager 2000001 mem_low engine_loaded db_one))) =
     2000001"
proof -
  have pre: "\<not> cache_is_fresh engine_loaded 2000000 \<and>
      flushFrequencyBatch DatabaseManager engine_loaded db_down = (Inr (), engine_loaded, db_down) \<and>
      repo_getMostFrequentTerms DatabaseManager = Some getMostFrequentTerms \<and>
      getMostFrequentTerms db_down (cacheLimit engine_loaded) = Inl DATABASE_CONNECTION_ERROR"
    by (simp add: engine_loaded_value service_eval engine_eval db_down_def db_one_def)
  from failed_fetch_keeps_cache_age [THEN conjunct1, rule_format, OF pre, of mem_low]
  obtain s' where run: "refreshCache DatabaseManager 2000000 mem_low engine_loaded db_down = (Inr (), s', db_down)"
    and same: "cacheLastUpdated s' = cacheLastUpdated engine_loaded"
    and stale: "\<forall>later. 2000000 \<le> later \<longrightarrow> \<not> cache_is_fresh s' later"
    and again: "\<forall>later m' r' s2 r2 ts.
              2000000 \<le> later \<and> flushFrequencyBatch DatabaseManager s' r' = (Inr (), s2, r2) \<and>
              getMostFrequentTerms r2 (cacheLimit s2) = Inr ts \<longrightarrow>
              cacheLastUpdated (fst (snd (refreshCache DatabaseManager later m' s' r'))) = later"
    by blast
  have s': "s' = engine_loaded"
    using run by (simp add: engine_loaded_value service_eval engine_eval db_down_def db_one_def)
  have ok: "(2000000::int) \<le> 2000001 \<and>
      flushFrequencyBatch DatabaseManager engine_loaded db_one = (Inr (), engine_loaded, db_one) \<and>
      getMostFrequentTerms db_one (cacheLimit engine_loaded) = Inr [row_nodulo]"
    by (simp add: engine_loaded_value service_eval engine_eval rows_eval db_one_def)
  have "cacheLastUpdated engine_loaded = 1000000"
    by (simp add: engine_loaded_value)
  with run stale again [rule_format, OF ok [folded s'], of mem_low] show ?thesis
    by (simp add: s')
qed

section \<open>Where the indices stay in step\<close>

lemma add_variants_completes: "JsTruthy \<notin> set vs \<Longrightarrow> fst (add_variants t vs m) = Inr ()"
  by (induction t vs m rule: add_variants.induct) auto

lemma index_term_completes:
  assumes "variants_parse [t]"
  shows "fst (index_term t s) = Inr ()"
  using assms
  by (auto simp: variants_parse_def index_term_def Let_def case_prod_beta add_variants_completes
           split: sum.splits option.splits if_splits)

lemma index_terms_completes:
  assumes "variants_parse ts"
  shows "fst (index_terms ts s) = Inr ()"
  using assms
proof (induction ts arbitrary: s)
  case Nil
  then show ?case by simp
next
  case (Cons t ts)
  then have t: "variants_parse [t]" and rest: "variants_parse ts"
    by (simp_all add: variants_parse_def)
  obtain out s1 where it: "index_term t s = (out, s1)" by (cases "index_term t s")
  with index_term_completes [OF t, of s] have "out = Inr ()" by simp
  with it Cons.IH [OF rest, of s1] show ?case by simp
qed

lemma rebuild_completes:
  assumes "variants_parse (cachedTerms s)"
  shows "\<exists>s'. rebuildTermIndices s = (Inr (), s') \<and> indices_consistent s' \<and>
              cachedTerms s' = cachedTerms s"
proof -
  obtain out s' where r: "rebuildTermIndices s = (out, s')" by (cases "rebuildTermIndices s")
  have "out = Inr ()"
    using index_terms_completes [OF assms, of "reset_indices s"] r
    by (simp add: rebuildTermIndices_def)
  with r rebuild_outcome [of s s'] cachedTerms_rebuild [of s] show ?thesis by simp
qed

text \<open>The rebuild reads the cache and writes the indices: the other fields of the service
  do not matter to it.\<close>

lemma index_term_batch:
  "index_term t (s\<lparr>frequencyUpdateBatch := b\<rparr>) =
     (fst (index_term t s), (snd (index_term t s))\<lparr>frequencyUpdateBatch := b\<rparr>)"
  by (simp add: index_term_def Let_def case_prod_beta split: sum.splits option.splits)

lemma index_terms_batch:
  "index_terms ts (s\<lparr>frequencyUpdateBatch := b\<rparr>) =
     (fst (index_terms ts s), (snd (index_terms ts s))\<lparr>frequencyUpdateBatch := b\<rparr>)"
proof (induction ts arbitrary: s)
  case Nil
  then show ?case by simp
next
  case (Cons t ts)
  obtain out s1 where it: "index_term t s = (out, s1)" by (cases "index_term t s")
  show ?case
    using Cons.IH [of s1] it by (cases out) (simp_all add: index_term_batch)
qed

lemma index_term_warning:
  "index_term t (s\<lparr>hasTriggeredWarning := b\<rparr>) =
     (fst (index_term t s), (snd (index_term t s))\<lparr>hasTriggeredWarning := b\<rparr>)"
  by (simp add: index_term_def Let_def case_prod_beta split: sum.splits option.splits)

lemma index_terms_warning:
  "index_terms ts (s\<lparr>hasTriggeredWarning := b\<rparr>) =
     (fst (index_terms ts s), (snd (index_terms ts s))\<lparr>hasTriggeredWarning := b\<rparr>)"
proof (induction ts arbitrary: s)
  case Nil
  then show ?case by simp
next
  case (Cons t ts)
  obtain out s1 where it: "index_term t s = (out, s1)" by (cases "index_term t s")
  show ?case
    using Cons.IH [of s1] it by (cases out) (simp_all add: index_term_warning)
qed

lemma consistent_batch:
  assumes "indices_consistent s"
  shows "indices_consistent (s\<lparr>frequencyUpdateBatch := b\<rparr>)"
proof -
  have "reset_indices (s\<lparr>frequencyUpdateBatch := b\<rparr>) = (reset_indices s)\<lparr>frequencyUpdateBatch := b\<rparr>"
    by (simp add: reset_indices_def)
  then show ?thesis
    using assms by (simp add: indices_consistent_def rebuildTermIndices_def index_terms_batch)
qed

lemma consistent_warning:
  assumes "indices_consistent s"
  shows "indices_consistent (s\<lparr>hasTriggeredWarning := b\<rparr>)"
proof -
  have "reset_indices (s\<lparr>hasTriggeredWarning := b\<rparr>) = (reset_indices s)\<lparr>hasTriggeredWarning := b\<rparr>"
    by (simp add: reset_indices_def)
  then show ?thesis
    using assms by (simp add: indices_consistent_def rebuildTermIndices_def index_terms_warning)
qed

lemma consistent_clearCache: "indices_consistent (clearCache s)"
  by (simp add: indices_consistent_def clearCache_def rebuildTermIndices_def reset_indices_def)

lemma consistent_flush:
  assumes "indices_consistent s"
  shows "indices_consistent (fst (snd (flushFrequencyBatch api s r)))"
    and "cachedTerms (fst (snd (flushFrequencyBatch api s r))) = cachedTerms s"
  using assms consistent_batch [OF assms, of "[]"]
  by (simp_all add: flushFrequencyBatch_def split: prod.splits sum.splits)

lemma variants_parse_subset:
  "variants_parse ts \<Longrightarrow> set us \<subseteq> set ts \<Longrightarrow> variants_parse us"
  by (auto simp: variants_parse_def list_all_iff)

lemma set_slice0: "set (slice0 xs n) \<subseteq> set xs"
  by (auto simp: slice0_def dest: in_set_takeD)

lemma consistent_reduce:
  assumes "indices_consistent s" and "variants_parse (cachedTerms s)"
  shows "fst (reduceCacheSize n s) = Inr ()"
    and "indices_consistent (snd (reduceCacheSize n s))"
    and "variants_parse (cachedTerms (snd (reduceCacheSize n s)))"
proof -
  let ?kept = "slice0 (sort_by_frequency (cachedTerms s)) n"
  have sub: "set ?kept \<subseteq> set (cachedTerms s)"
    using set_slice0 [of "sort_by_frequency (cachedTerms s)" n]
    by (simp add: sort_by_frequency_def)
  then have vp: "variants_parse (cachedTerms (s\<lparr>cachedTerms := ?kept\<rparr>))"
    using assms(2) by (simp add: variants_parse_subset)
  from rebuild_completes [OF vp] obtain s' where
    r: "rebuildTermIndices (s\<lparr>cachedTerms := ?kept\<rparr>) = (Inr (), s')"
    and c: "indices_consistent s'" and k: "cachedTerms s' = ?kept" by auto
  show "fst (reduceCacheSize n s) = Inr ()"
    using r by (simp add: reduceCacheSize_def)
  show "indices_consistent (snd (reduceCacheSize n s))"
    using r c assms(1) by (simp add: reduceCacheSize_def)
  show "variants_parse (cachedTerms (snd (reduceCacheSize n s)))"
    using r k vp assms(2) by (simp add: reduceCacheSize_def)
qed

lemma consistent_checkMemoryUsage:
  assumes "indices_consistent s" and "variants_parse (cachedTerms s)"
  shows "indices_consistent (fst (checkMemoryUsage api m s r))"
proof -
  let ?n = "\<lfloor>rat_of_int (cacheLimit s) * (1 / 2)\<rfloor>"
  obtain out s1 where red: "reduceCacheSize ?n s = (out, s1)"
    by (cases "reduceCacheSize ?n s")
  with consistent_reduce [OF assms, of ?n] have out: "out = Inr ()" and c1: "indices_consistent s1"
    by simp_all
  obtain o2 s2 r2 where fl: "flushFrequencyBatch api s1 r = (o2, s2, r2)"
    by (cases "flushFrequencyBatch api s1 r")
  with consistent_flush(1) [OF c1, of api r] have c2: "indices_consistent s2" by simp
  show ?thesis
    using red out fl c2 assms(1)
    by (simp add: checkMemoryUsage_def checkMemoryUsage_try_def consistent_clearCache)
qed

text \<open>
  Where every frequent term that the repository returns carries a \<open>variants\<close> value that
  decodes to no array with a truthy element that is not a string, \<open>refreshCache\<close> leaves
  the indices in step with the cache, on its failure paths too.
\<close>

lemma refreshCache_keeps_indices:
  assumes c: "indices_consistent s"
    and fetched: "\<forall>fetch r' ts. repo_getMostFrequentTerms api = Some fetch \<and>
           fetch r' (cacheLimit s) = Inr ts \<longrightarrow> variants_parse ts"
  shows "indices_consistent (fst (snd (refreshCache api now m s r)))"
proof (cases "cache_is_fresh s now")
  case True
  with c show ?thesis by (simp add: refreshCache_def)
next
  case False
  obtain o1 s1 r1 where fl: "flushFrequencyBatch api s r = (o1, s1, r1)"
    by (cases "flushFrequencyBatch api s r") auto
  have c1: "indices_consistent s1" and t1: "cachedTerms s1 = cachedTerms s"
    using consistent_flush [OF c, of api r] fl by simp_all
  have l1: "cacheLimit s1 = cacheLimit s"
    using flush_state [OF fl] by (cases o1) simp_all
  have cleared: "indices_consistent (reset_indices (x\<lparr>cachedTerms := []\<rparr>))" for x
    using consistent_clearCache [of x] by (simp add: clearCache_def)
  show ?thesis
  proof (cases o1)
    case (Inl e)
    then show ?thesis
      using False fl c1 t1 cleared
      by (simp add: refreshCache_def refreshCache_try_def rebuild_cleared)
  next
    case (Inr u)
    show ?thesis
    proof (cases "repo_getMostFrequentTerms api")
      case None
      then show ?thesis
        using False fl Inr c1 by (simp add: refreshCache_def refreshCache_try_def)
    next
      case (Some fetch)
      show ?thesis
      proof (cases "fetch r1 (cacheLimit s1)")
        case (Inl e)
        then show ?thesis
          using False fl \<open>o1 = Inr u\<close> Some c1 t1 cleared
          by (simp add: refreshCache_def refreshCache_try_def rebuild_cleared)
      next
        case (Inr ts)
        with fetched Some l1 have vp: "variants_parse ts" by auto
        let ?s2 = "s1\<lparr>cachedTerms := ts, cacheLastUpdated := now\<rparr>"
        from rebuild_completes [of ?s2] vp obtain s3 where
          rb: "rebuildTermIndices ?s2 = (Inr (), s3)" and c3: "indices_consistent s3"
          and t3: "cachedTerms s3 = ts" by auto
        have c4: "indices_consistent (update_warning s3)"
          using c3 by (simp add: update_warning_def Let_def consistent_warning)
        have t4: "variants_parse (cachedTerms (update_warning s3))"
          using vp t3 by (simp add: update_warning_def Let_def)
        have "indices_consistent (fst (checkMemoryUsage api m (update_warning s3) r1))"
          using c4 t4 by (rule consistent_checkMemoryUsage)
        then show ?thesis
          using False fl \<open>o1 = Inr u\<close> Some Inr rb
          by (simp add: refreshCache_def refreshCache_try_def split: prod.splits)
      qed
    qed
  qed
qed

section \<open>Public methods\<close>

text \<open>
  Claim C3, evaluated where it fails. The service loaded its cache half a second ago.
  \<open>addOrUpdateTerm\<close> for the new heard term \<open>quiste\<close> stores the row and returns its id,
  2; the call of \<open>refreshCache\<close> that follows finds the cache fresh and returns at once,
  so the service is left as it was and the new term is not in its cache or indices.
\<close>

theorem addOrUpdateTerm_skips_refresh:
  "cache_is_fresh engine_loaded 1000500 \<and>
   addOrUpdateTerm DatabaseManager 1000500 mem_low engine_loaded db_one ''quiste'' ''Quiste'' no_options =
     (Inr (Some 2),
      engine_loaded,
      \<lparr>connected = True,
       medical_terms =
         [row_nodulo,
          \<lparr>term_id = 2, heard_term = ''quiste'', correct_term = ''Quiste'',
           specialty = None, modality = None, frequency = Some 1,
           variants = JsonArray [], context_words = JsonArray []\<rparr>],
       seq = 2\<rparr>) \<and>
   cachedTerms engine_loaded = [row_nodulo] \<and>
   exact_lookup engine_loaded ''quiste'' = None \<and>
   termIndexByFirstChar engine_loaded ''q'' = None"
  by (simp add: addOrUpdateTerm_def no_options_def engine_loaded_value service_eval engine_eval
        rows_eval db_one_def addOrUpdateMedicalTerm_def nocase_eq_def nocase_key_def
        utf8_length_def ascii_lower_char_def stringify_def trim_def is_space_def next_rowid_def
        rowids_exhausted_def max_rowid_def)

text \<open>What \<open>addOrUpdateTerm\<close> does for every input: it returns normally; it returns \<open>null\<close>
  when an argument is empty, when the repository has no upsert, and when the upsert fails;
  and it returns the id of the upsert otherwise. When the cache is fresh the service is
  left as it was.\<close>

lemma addOrUpdateTerm_returns:
  "\<exists>res s' r'. addOrUpdateTerm api now m s r heardTerm correctTerm options = (Inr res, s', r')"
  by (auto simp: addOrUpdateTerm_def split: option.splits prod.splits sum.splits)

lemma addOrUpdateTerm_null:
  assumes "heardTerm = [] \<or> correctTerm = [] \<or> repo_addOrUpdateMedicalTerm api = None \<or>
     (\<exists>upsert e r1. repo_addOrUpdateMedicalTerm api = Some upsert \<and>
        upsert r heardTerm correctTerm (o_specialty options) (o_modality options)
          (o_variants options) (o_contextWords options) = (Inl e, r1))"
  shows "fst (addOrUpdateTerm api now m s r heardTerm correctTerm options) = Inr None"
  using assms by (auto simp: addOrUpdateTerm_def split: option.splits)

lemma addOrUpdateTerm_fresh_cache:
  assumes "heardTerm \<noteq> []" and "correctTerm \<noteq> []"
    and "repo_addOrUpdateMedicalTerm api = Some upsert"
    and "upsert r heardTerm correctTerm (o_specialty options) (o_modality options)
          (o_variants options) (o_contextWords options) = (Inr termId, r1)"
    and "cache_is_fresh s now"
  shows "addOrUpdateTerm api now m s r heardTerm correctTerm options = (Inr (Some termId), s, r1)"
  using assms by (simp add: addOrUpdateTerm_def refreshCache_def)

lemma refreshCache_returns: "\<exists>s' r'. refreshCache api now m s r = (Inr (), s', r')"
proof (cases "cache_is_fresh s now")
  case True
  then show ?thesis by (simp add: refreshCache_def)
next
  case False
  obtain out s1 r1 where t: "refreshCache_try api now m s r = (out, s1, r1)"
    by (cases "refreshCache_try api now m s r") auto
  show ?thesis
    using False t by (cases out) (simp_all add: refreshCache_def rebuild_cleared)
qed

text \<open>
  Claim C1. \<open>processText\<close> returns a result for every input, repository, helper
  behaviour and state, and so does the \<open>refreshCache\<close> it calls, whatever the repository
  answers. Whenever an exception reaches the handler of \<open>processText\<close> the result is the
  input text with no replacements; in particular when the splitting fails and when the
  processing of a sentence fails.
\<close>

theorem processText_never_throws:
  "(\<exists>res s' r'. processText api hp now m s r txt sp mo = (Inr res, s', r')) \<and>
   (\<exists>s1 r1. refreshCache api now m s r = (Inr (), s1, r1)) \<and>
   (\<forall>e s' r'. processText_try api hp now m s r txt sp mo = (Inl e, s', r') \<longrightarrow>
      processText api hp now m s r txt sp mo = (Inr (txt, []), s', r')) \<and>
   (\<forall>s1 r1 e. trim txt \<noteq> [] \<and> length txt \<le> 15000 \<and>
      refreshCache api now m s r = (Inr (), s1, r1) \<and> splitIntoSentences hp txt = Inl e \<longrightarrow>
      processText api hp now m s r txt sp mo = (Inr (txt, []), s1, r1)) \<and>
   (\<forall>s1 r1 sentences e s2 r2. trim txt \<noteq> [] \<and> length txt \<le> 15000 \<and>
      refreshCache api now m s r = (Inr (), s1, r1) \<and>
      splitIntoSentences hp txt = Inr sentences \<and>
      process_sentences hp sp mo sentences ([], [], 0) s1 r1 = (Inl e, s2, r2) \<longrightarrow>
      processText api hp now m s r txt sp mo = (Inr (txt, []), s2, r2))"
proof (intro conjI allI impI)
  obtain out s' r' where t: "processText_try api hp now m s r txt sp mo = (out, s', r')"
    by (cases "processText_try api hp now m s r txt sp mo") auto
  then show "\<exists>res s' r'. processText api hp now m s r txt sp mo = (Inr res, s', r')"
    by (cases out) (simp_all add: processText_def)
next
  show "\<exists>s1 r1. refreshCache api now m s r = (Inr (), s1, r1)"
    by (rule refreshCache_returns)
next
  fix e s' r'
  assume "processText_try api hp now m s r txt sp mo = (Inl e, s', r')"
  then show "processText api hp now m s r txt sp mo = (Inr (txt, []), s', r')"
    by (simp add: processText_def)
next
  fix s1 r1 e
  assume "trim txt \<noteq> [] \<and> length txt \<le> 15000 \<and>
      refreshCache api now m s r = (Inr (), s1, r1) \<and> splitIntoSentences hp txt = Inl e"
  then show "processText api hp now m s r txt sp mo = (Inr (txt, []), s1, r1)"
    by (auto simp: processText_def processText_try_def process_piece_def trim_def)
next
  fix s1 r1 sentences e s2 r2
  assume "trim txt \<noteq> [] \<and> length txt \<le> 15000 \<and>
      refreshCache api now m s r = (Inr (), s1, r1) \<and>
      splitIntoSentences hp txt = Inr sentences \<and>
      process_sentences hp sp mo sentences ([], [], 0) s1 r1 = (Inl e, s2, r2)"
  then show "processText api hp now m s r txt sp mo = (Inr (txt, []), s2, r2)"
    by (auto simp: processText_def processText_try_def process_piece_def trim_def)
qed

theorem processText_never_throws_witness:
  "refreshCache DatabaseManager 2000000 mem_low (new_service default_options) db_down =
     (Inr (), new_service default_options, db_down) \<and>
   processText DatabaseManager helpers_failing 2000000 mem_low (new_service default_options) db_down
       ''nodulo pulmonar'' None None =
     (Inr (''nodulo pulmonar'', []), new_service default_options, db_down)"
proof -
  have r: "refreshCache DatabaseManager 2000000 mem_low (new_service default_options) db_down =
     (Inr (), new_service default_options, db_down)"
    by (simp add: service_eval engine_eval db_down_def db_one_def)
  have pre: "trim ''nodulo pulmonar'' \<noteq> [] \<and> length ''nodulo pulmonar'' \<le> 15000 \<and>
      refreshCache DatabaseManager 2000000 mem_low (new_service default_options) db_down =
        (Inr (), new_service default_options, db_down) \<and>
      splitIntoSentences helpers_failing ''nodulo pulmonar'' = Inr [''nodulo pulmonar''] \<and>
      process_sentences helpers_failing None None [''nodulo pulmonar''] ([], [], 0)
        (new_service default_options) db_down = (Inl TypeError, new_service default_options, db_down)"
    using r by (simp add: helpers_failing_def trim_def is_space_def)
  from processText_never_throws [THEN conjunct2, THEN conjunct2, THEN conjunct2, THEN conjunct2,
      rule_format, OF pre] r
  show ?thesis by simp
qed

section \<open>Offsets in the loop of \<open>processText\<close>\<close>

lemma substring_ordered: "a \<le> b \<Longrightarrow> substring txt a b = take (b - a) (drop a txt)"
  by (simp add: substring_def)

lemma span_ok_extend:
  assumes "span_ok txt rep"
  shows "span_ok (txt @ tail) rep"
proof (cases "textIndices rep")
  case None
  then show ?thesis by (simp add: span_ok_def)
next
  case (Some ab)
  obtain a b where ab: "ab = (a, b)" by (cases ab)
  with Some assms have le: "a \<le> b" "b \<le> length txt" and sub: "substring txt a b = original rep"
    by (simp_all add: span_ok_def)
  from sub have "take (b - a) (drop a txt) = original rep"
    by (simp add: substring_ordered [OF le(1)])
  then show ?thesis
    using Some ab le by (simp add: span_ok_def substring_ordered)
qed

lemma span_ok_moved:
  assumes "span_ok piece rep"
  shows "span_ok (pre @ piece)
           (rep\<lparr>textIndices := map_option (\<lambda>(a, b). (a + length pre, b + length pre)) (textIndices rep)\<rparr>)"
proof (cases "textIndices rep")
  case None
  then show ?thesis by (simp add: span_ok_def)
next
  case (Some ab)
  obtain a b where ab: "ab = (a, b)" by (cases ab)
  with Some assms have le: "a \<le> b" "b \<le> length piece"
    and sub: "substring piece a b = original rep"
    by (simp_all add: span_ok_def)
  from sub have "take (b - a) (drop a piece) = original rep"
    by (simp add: substring_ordered [OF le(1)])
  then show ?thesis
    using Some ab le by (simp add: span_ok_def substring_ordered)
qed

lemma span_ok_shift:
  assumes "span_ok sentence rep"
  shows "span_ok (pre @ sentence) (shift_replacement (length pre) rep)"
proof -
  have "span_ok (pre @ sentence) (shift_replacement (length pre) rep) =
        span_ok (pre @ sentence)
           (rep\<lparr>textIndices := map_option (\<lambda>(a, b). (a + length pre, b + length pre)) (textIndices rep)\<rparr>)"
    by (cases "textIndices rep") (simp_all add: span_ok_def shift_replacement_def)
  with span_ok_moved [OF assms] show ?thesis by simp
qed

text \<open>
  The offset accounting of the loop of \<open>processText\<close>. The loop adds to the span of every
  record the lengths of the sentences before its own. So where every record that the
  sentence processor returns spans its original fragment in its sentence, the records
  collected by the loop span their original fragments in the concatenation of the
  sentences. Whether that concatenation is the input text is up to the sentence splitter.
\<close>

lemma process_sentences_spans:
  assumes sent: "\<forall>s r sentence out reps s' r'.
        processSentence hp s r sentence sp mo = (Inr (out, reps), s', r') \<longrightarrow>
        (\<forall>rep \<in> set reps. span_ok sentence rep)"
    and run: "process_sentences hp sp mo sentences (pt, acc, off) s r = (Inr (pt', acc', off'), s', r')"
    and acc: "\<forall>rep \<in> set acc. span_ok pre rep" and off: "off = length pre"
  shows "\<forall>rep \<in> set acc'. span_ok (pre @ concat sentences) rep"
  using run acc off
proof (induction sentences arbitrary: pt acc off s r pre)
  case Nil
  then show ?case by simp
next
  case (Cons sentence rest)
  obtain res s1 r1 where ps: "processSentence hp s r sentence sp mo = (res, s1, r1)"
    by (cases "processSentence hp s r sentence sp mo") auto
  with Cons.prems(1) obtain out reps where res: "res = Inr (out, reps)"
    by (cases res) auto
  with ps sent have local: "\<forall>rep \<in> set reps. span_ok sentence rep" by blast
  let ?acc = "acc @ map (shift_replacement off) reps"
  have run': "process_sentences hp sp mo rest (pt @ out, ?acc, off + length sentence) s1 r1 =
              (Inr (pt', acc', off'), s', r')"
    using Cons.prems(1) ps res by simp
  have acc': "\<forall>rep \<in> set ?acc. span_ok (pre @ sentence) rep"
    using Cons.prems(2,3) local by (auto intro: span_ok_extend span_ok_shift)
  have "\<forall>rep \<in> set acc'. span_ok ((pre @ sentence) @ concat rest) rep"
    using Cons.IH [OF run' acc'] Cons.prems(3) by simp
  then show ?case by simp
qed

end
